theory Spec2Isabelle
  imports
    Complex_Main
    "HOL-Library.Sublist"
    "HOL-Library.AList"
    "HOL-Library.Char_ord"
    "HOL-Library.List_Lexorder"
    "HOL-Library.Product_Lexorder"
begin

section \<open>Python values used by \<^verbatim>\<open>steamtoolsadder_gui.py\<close>\<close>

text \<open>
  A Python \<^verbatim>\<open>str\<close> is modelled as a \<^typ>\<open>string\<close> whose characters are the code points
  U+0000 to U+00FF, one \<^typ>\<open>char\<close> per code point. On that range the predicates below are
  exactly \<^verbatim>\<open>str.isdigit\<close>, the regular expression class \<^verbatim>\<open>\d\<close>, \<^verbatim>\<open>str.isspace\<close> and
  \<^verbatim>\<open>str.lower\<close> of CPython 3. Code points above U+00FF are outside the model.
\<close>

datatype exn =
    ValueError | KeyError | AttributeError | OSError | SameFileError | BadZipFile | HTTPError
  | ConnectionError

text \<open>The class \<^verbatim>\<open>\d\<close>, and the characters \<^verbatim>\<open>int()\<close> reads as decimal digits: 0 to 9.\<close>

definition is_decimal :: "char \<Rightarrow> bool" where
  "is_decimal c = (48 \<le> (of_char c :: nat) \<and> (of_char c :: nat) \<le> 57)"

text \<open>
  \<^verbatim>\<open>str.isdigit\<close> on one character: the decimal digits and the superscripts U+00B2, U+00B3
  and U+00B9, which are digits to \<^verbatim>\<open>isdigit\<close> but not to \<^verbatim>\<open>int()\<close>.
\<close>

definition isdigit_char :: "char \<Rightarrow> bool" where
  "isdigit_char c = (is_decimal c \<or> (of_char c :: nat) = 178 \<or> (of_char c :: nat) = 179
     \<or> (of_char c :: nat) = 185)"

definition isdigit :: "string \<Rightarrow> bool" where
  "isdigit s = (s \<noteq> [] \<and> list_all isdigit_char s)"

definition isspace_char :: "char \<Rightarrow> bool" where
  "isspace_char c = (let n = (of_char c :: nat) in
     (9 \<le> n \<and> n \<le> 13) \<or> (28 \<le> n \<and> n \<le> 32) \<or> n = 133 \<or> n = 160)"

definition strip :: "string \<Rightarrow> string" where
  "strip s = rev (dropWhile isspace_char (rev (dropWhile isspace_char s)))"

definition lower_char :: "char \<Rightarrow> char" where
  "lower_char c = (let n = (of_char c :: nat) in
     if (65 \<le> n \<and> n \<le> 90) \<or> (192 \<le> n \<and> n \<le> 222 \<and> n \<noteq> 215)
     then char_of (n + 32) else c)"

definition lower :: "string \<Rightarrow> string" where
  "lower s = map lower_char s"

text \<open>The test \<^verbatim>\<open>needle in haystack\<close> on strings.\<close>

fun contains :: "string \<Rightarrow> string \<Rightarrow> bool" where
  "contains needle [] = (needle = [])"
| "contains needle (c # cs) = (prefix needle (c # cs) \<or> contains needle cs)"

text \<open>
  \<^verbatim>\<open>int(s)\<close> for the strings that reach it in \<^verbatim>\<open>find_game\<close> (every character passed
  \<^verbatim>\<open>isdigit\<close> or \<^verbatim>\<open>\d\<close>, so no sign, blank or underscore occurs). A character that is not a
  decimal digit raises \<^verbatim>\<open>ValueError\<close>, and so does a string of more than 4300 digits
  (the default limit of CPython on decimal conversion, which counts leading zeros).
\<close>

definition max_str_digits :: nat where
  "max_str_digits = 4300"

definition digit_val :: "char \<Rightarrow> int" where
  "digit_val c = int (of_char c) - 48"

definition int_of_digits :: "string \<Rightarrow> int" where
  "int_of_digits s = foldl (\<lambda>a c. 10 * a + digit_val c) 0 s"

definition py_int :: "string \<Rightarrow> exn + int" where
  "py_int s =
     (if s \<noteq> [] \<and> list_all is_decimal s \<and> length s \<le> max_str_digits
      then Inr (int_of_digits s) else Inl ValueError)"

text \<open>\<^verbatim>\<open>str(n)\<close> for an integer: its decimal numeral, with a minus sign when negative.\<close>

function str_nat :: "nat \<Rightarrow> string" where
  "str_nat n = (if n < 10 then [char_of (48 + n)] else str_nat (n div 10) @ [char_of (48 + n mod 10)])"
  by pat_completeness auto
termination
  by (relation "measure id") auto

definition str_int :: "int \<Rightarrow> string" where
  "str_int i = (if i < 0 then CHR ''-'' # str_nat (nat (- i)) else str_nat (nat i))"

text \<open>
  \<^verbatim>\<open>re.search(r'/app/(\d+)', query)\<close>: the leftmost position where \<^verbatim>\<open>/app/\<close> is followed by
  a digit; group 1 is the longest run of digits there. \<open>None\<close> when there is no match.
\<close>

fun search_app :: "string \<Rightarrow> string option" where
  "search_app [] = None"
| "search_app (c # cs) =
     (if prefix ''/app/'' (c # cs) \<and> takeWhile is_decimal (drop 5 (c # cs)) \<noteq> []
      then Some (takeWhile is_decimal (drop 5 (c # cs)))
      else search_app cs)"

section \<open>The world outside the process\<close>

text \<open>
  A path is the list of its components from the root; names are compared as they are
  spelled. The file system lists every entry once, in the order in which a recursive
  directory walk meets it; a file carries its bytes and whether it can be opened for
  writing.
\<close>

type_synonym path = "string list"

datatype node = Dir | File (content: string) (writable: bool)

type_synonym filesystem = "(path \<times> node) list"

text \<open>The node at a path; the root is a directory that always exists.\<close>

definition node_at :: "filesystem \<Rightarrow> path \<Rightarrow> node option" where
  "node_at f p = (if p = [] then Some Dir else map_of f p)"

text \<open>\<^verbatim>\<open>Path.exists\<close>.\<close>

definition path_exists :: "filesystem \<Rightarrow> path \<Rightarrow> bool" where
  "path_exists f p = (node_at f p \<noteq> None)"

text \<open>\<^verbatim>\<open>Path.name\<close>: the last component, and the empty string for the empty path.\<close>

definition basename :: "path \<Rightarrow> string" where
  "basename p = (case rev p of [] \<Rightarrow> [] | n # _ \<Rightarrow> n)"

text \<open>
  \<^verbatim>\<open>Path.mkdir(parents=True, exist_ok=True)\<close>: every missing directory on the way is
  created; a component that is a file raises. \<open>mkdirs pre cs\<close> walks the components \<open>cs\<close>
  below the directory \<open>pre\<close>.
\<close>

fun mkdirs :: "path \<Rightarrow> string list \<Rightarrow> filesystem \<Rightarrow> exn + filesystem" where
  "mkdirs pre [] f = Inr f"
| "mkdirs pre (c # cs) f =
     (case node_at f (pre @ [c]) of
        Some Dir \<Rightarrow> mkdirs (pre @ [c]) cs f
      | Some (File _ _) \<Rightarrow> Inl OSError
      | None \<Rightarrow> mkdirs (pre @ [c]) cs (f @ [(pre @ [c], Dir)]))"

definition mkdir_parents :: "path \<Rightarrow> filesystem \<Rightarrow> exn + filesystem" where
  "mkdir_parents p f = mkdirs [] p f"

text \<open>
  \<^verbatim>\<open>open(p, 'wb')\<close> followed by writing \<open>bytes\<close>: the file is created in an existing
  directory or truncated; a directory at \<open>p\<close>, a missing parent and a file that cannot be
  written raise and change nothing.
\<close>

definition write_file :: "path \<Rightarrow> string \<Rightarrow> filesystem \<Rightarrow> exn + filesystem" where
  "write_file p bytes f =
     (case node_at f p of
        Some Dir \<Rightarrow> Inl OSError
      | Some (File _ wr) \<Rightarrow> if wr then Inr (AList.update p (File bytes True) f) else Inl OSError
      | None \<Rightarrow>
          if node_at f (butlast p) = Some Dir then Inr (AList.update p (File bytes True) f)
          else Inl OSError)"

text \<open>\<^verbatim>\<open>Path.unlink\<close>: removes a file; anything else raises.\<close>

definition unlink :: "path \<Rightarrow> filesystem \<Rightarrow> exn + filesystem" where
  "unlink p f =
     (case node_at f p of
        Some (File _ _) \<Rightarrow> Inr (AList.delete p f)
      | _ \<Rightarrow> Inl OSError)"

text \<open>
  \<^verbatim>\<open>ZipFile.extractall(dir)\<close> over the archive's file entries (relative path and bytes), in
  order. The first entry that cannot be written raises; what was extracted before it stays.
\<close>

fun extractall :: "path \<Rightarrow> (path \<times> string) list \<Rightarrow> filesystem \<Rightarrow> exn option \<times> filesystem" where
  "extractall dir [] f = (None, f)"
| "extractall dir ((rel, bytes) # es) f =
     (case mkdir_parents (butlast (dir @ rel)) f of
        Inl e \<Rightarrow> (Some e, f)
      | Inr f1 \<Rightarrow>
          (case write_file (dir @ rel) bytes f1 of
             Inl e \<Rightarrow> (Some e, f1)
           | Inr f2 \<Rightarrow> extractall dir es f2))"

text \<open>
  \<^verbatim>\<open>Path.rglob(pattern)\<close>: the entries below \<open>base\<close>, files and directories alike, whose
  name the pattern accepts, in the order of the walk; nothing when \<open>base\<close> is not a directory.
\<close>

definition rglob :: "filesystem \<Rightarrow> path \<Rightarrow> (string \<Rightarrow> bool) \<Rightarrow> path list" where
  "rglob f base accepts =
     (if node_at f base = Some Dir
      then filter (\<lambda>p. strict_prefix base p \<and> accepts (basename p)) (map fst f)
      else [])"

text \<open>
  \<^verbatim>\<open>shutil.copy2(src, dst)\<close>: a destination that is a directory stands for the entry of
  the source's name inside it. The source must be a file other than the destination; the
  destination must be a file that can be written, or be absent from an existing
  directory. The copy takes the bytes and the mode of the source. A failed copy raises and
  changes nothing.
\<close>

definition copy2 :: "path \<Rightarrow> path \<Rightarrow> filesystem \<Rightarrow> exn + filesystem" where
  "copy2 src dst0 f =
     (let dst = (if node_at f dst0 = Some Dir then dst0 @ [basename src] else dst0) in
      if src = dst then Inl SameFileError
      else
        (case node_at f src of
           Some (File bytes wr) \<Rightarrow>
             (case node_at f dst of
                Some Dir \<Rightarrow> Inl OSError
              | Some (File _ dwr) \<Rightarrow>
                  if dwr then Inr (AList.update dst (File bytes wr) f) else Inl OSError
              | None \<Rightarrow>
                  if node_at f (butlast dst) = Some Dir
                  then Inr (AList.update dst (File bytes wr) f) else Inl OSError)
         | _ \<Rightarrow> Inl OSError))"

text \<open>
  \<^verbatim>\<open>shutil.rmtree(p)\<close>: removes the directory and everything below it; a path that is not
  a directory raises. Removal of an existing tree is taken to succeed.
\<close>

definition rmtree :: "path \<Rightarrow> filesystem \<Rightarrow> exn + filesystem" where
  "rmtree p f =
     (if p \<noteq> [] \<and> node_at f p = Some Dir
      then Inr (filter (\<lambda>(q, n). \<not> prefix p q) f) else Inl OSError)"

text \<open>
  What \<^verbatim>\<open>get_app_details\<close> makes of a body: nothing (the body does not decode, the id
  is not in it, \<^verbatim>\<open>success\<close> is false, or the data are empty), a data object with the
  name that \<^verbatim>\<open>.get('name', 'Unknown')\<close> reads from it, or data that are not an object.
\<close>

datatype app_details = NoDetails | Details string | NotAnObject

text \<open>
  What one HTTP GET answers. \<open>app_list\<close> is what
  \<^verbatim>\<open>response.json()['applist']['apps']\<close> decodes to, a list of name and appid records, and
  \<open>None\<close> when that expression or the dictionary comprehension over it raises.
  \<open>chunks\<close> is what \<^verbatim>\<open>iter_content\<close> yields and \<open>stream_ok\<close> whether the stream ends
  without an exception. \<open>store_data\<close> is how the body reads as store details.
  \<open>Unreachable\<close> is a \<^verbatim>\<open>requests.get\<close> that raises.
\<close>

record response =
  status_code :: nat
  app_list :: "(string \<times> int) list option"
  chunks :: "string list"
  stream_ok :: bool
  store_data :: app_details

datatype http_reply = Unreachable | Reply response

text \<open>
  The environment: the file system, the home directory, the environment variables that
  hold directories, the network (the reply to the \<open>n\<close>-th request of the process, by URL),
  the requests made so far, the decoder of zip archives (\<open>None\<close> for bytes that are not an
  archive), whether a process can be spawned from an executable, and those spawned so far.
\<close>

record world =
  fs :: filesystem
  home :: path
  environ :: "string \<Rightarrow> path option"
  http :: "nat \<Rightarrow> string \<Rightarrow> http_reply"
  requests :: "string list"
  unzip :: "string \<Rightarrow> (path \<times> string) list option"
  can_spawn :: "path \<Rightarrow> bool"
  spawned :: "path list"

definition http_get :: "string \<Rightarrow> world \<Rightarrow> http_reply \<times> world" where
  "http_get url w = (http w (length (requests w)) url, w\<lparr>requests := requests w @ [url]\<rparr>)"

section \<open>\<^verbatim>\<open>SteamToolsDownloader\<close>: name resolution\<close>

text \<open>
  The fields of the class. \<open>games_cache\<close> is a dictionary from lowercased name to app id,
  kept in insertion order; \<open>priv_steam_folder\<close> is \<^verbatim>\<open>_steam_folder\<close>.
\<close>

record steamtools_downloader =
  games_cache :: "(string \<times> int) list"
  base_url :: string
  r2_base_url :: string
  steamtools_exe :: "path option"
  priv_steam_folder :: "path option"

text \<open>What \<^verbatim>\<open>find_game\<close> returns: an \<^verbatim>\<open>int\<close>, a list of pairs, or \<^verbatim>\<open>None\<close>.\<close>

datatype find_result = ResolvedId int | CandidateSet "(string \<times> int) list" | NotFound

text \<open>
  \<^verbatim>\<open>get_app_list\<close>: the cache is filled when it is empty. Every exception inside the
  \<^verbatim>\<open>try\<close> is swallowed (the message printed to standard output is not modelled) and
  leaves the cache as it was. A repeated name keeps its place in the dictionary and takes
  the later id.
\<close>

definition get_app_list ::
  "steamtools_downloader \<Rightarrow> world \<Rightarrow> (string \<times> int) list \<times> steamtools_downloader \<times> world" where
  "get_app_list d w =
     (if games_cache d = [] then
        (case http_get (base_url d @ ''/ISteamApps/GetAppList/v2/'') w of
           (Reply resp, w') \<Rightarrow>
             (case app_list resp of
                Some apps \<Rightarrow>
                  (let cache = foldl (\<lambda>g (n, i). AList.update (lower n) i g) [] apps
                   in (cache, d\<lparr>games_cache := cache\<rparr>, w'))
              | None \<Rightarrow> (games_cache d, d, w'))
         | (Unreachable, w') \<Rightarrow> (games_cache d, d, w'))
      else (games_cache d, d, w))"

text \<open>
  \<^verbatim>\<open>difflib.get_close_matches(word, possibilities, n, cutoff)\<close>. The similarity
  \<^verbatim>\<open>SequenceMatcher(a=x, b=word).ratio()\<close> is a library function and a parameter here; its
  value is a fraction \<open>2M/T\<close>, compared as a rational. The two quick ratios the library
  tests first are upper bounds of it, so the test is \<open>cutoff \<le> ratio x word\<close>.
  \<^verbatim>\<open>heapq.nlargest(n, result)\<close> is the first \<open>n\<close> of the pairs (score, name) sorted downwards.
\<close>

definition get_close_matches ::
  "(string \<Rightarrow> string \<Rightarrow> rat) \<Rightarrow> string \<Rightarrow> string list \<Rightarrow> nat \<Rightarrow> rat \<Rightarrow> string list" where
  "get_close_matches ratio word possibilities n cutoff =
     (let result = map (\<lambda>x. (ratio x word, x)) (filter (\<lambda>x. cutoff \<le> ratio x word) possibilities)
      in map snd (take n (rev (sort result))))"

text \<open>The comprehension \<^verbatim>\<open>[(match, games[match]) for match in matches]\<close>.\<close>

fun pair_ids :: "(string \<times> int) list \<Rightarrow> string list \<Rightarrow> exn + (string \<times> int) list" where
  "pair_ids games [] = Inr []"
| "pair_ids games (m # ms) =
     (case map_of games m of
        None \<Rightarrow> Inl KeyError
      | Some i \<Rightarrow> (case pair_ids games ms of Inl e \<Rightarrow> Inl e | Inr ps \<Rightarrow> Inr ((m, i) # ps)))"

definition find_game ::
  "(string \<Rightarrow> string \<Rightarrow> rat) \<Rightarrow> string \<Rightarrow> steamtools_downloader \<Rightarrow> world
     \<Rightarrow> (exn + find_result) \<times> steamtools_downloader \<times> world" where
  "find_game ratio query d w =
     (case (if contains ''store.steampowered.com'' query \<or> contains ''steamcommunity.com'' query
            then search_app query else None) of
        Some ds \<Rightarrow> (map_sum id ResolvedId (py_int ds), d, w)
      | None \<Rightarrow>
          if isdigit query then (map_sum id ResolvedId (py_int query), d, w)
          else
            (case get_app_list d w of
               (games, d', w') \<Rightarrow>
                 if games = [] then (Inr NotFound, d', w')
                 else
                   (let query_lower = lower query in
                    case map_of games query_lower of
                      Some i \<Rightarrow> (Inr (ResolvedId i), d', w')
                    | None \<Rightarrow>
                        (let matches = get_close_matches ratio query_lower (map fst games) 5 (7 / 10)
                         in if matches \<noteq> []
                            then (map_sum id CandidateSet (pair_ids games matches), d', w')
                            else (Inr NotFound, d', w')))))"


section \<open>\<^verbatim>\<open>SteamToolsDownloader\<close>: discovery, download, installation, launch\<close>

text \<open>
  The messages handed to \<^verbatim>\<open>log_callback\<close>, one constructor per format string of the
  source, with the values the string interpolates.
\<close>

datatype log_msg =
    Downloading int
  | NoDataFound int
  | Downloaded string
  | Extracting
  | ExtractedOk
  | DownloadError exn
  | NoFilesFound
  | CopyingToSteam
  | SteamNotFound
  | CopyingPlugins
  | CopyFailed exn
  | CopyingManifests
  | CleaningUp
  | DeletedTemp
  | CouldNotDelete exn
  | SteamClosed
  | CouldNotClose exn
  | SteamStarted
  | CouldNotStart exn
  | SteamToolsNotFound
  | SteamToolsLaunched
  | LaunchFailed exn

text \<open>\<^verbatim>\<open>if log_callback: log_callback(m)\<close>; \<open>cb\<close> tells whether a callback was passed.\<close>

definition emit :: "bool \<Rightarrow> log_msg \<Rightarrow> log_msg list" where
  "emit cb m = (if cb then [m] else [])"

definition common_paths :: "world \<Rightarrow> path list" where
  "common_paths w =
     [home w @ [''AppData'', ''Local'', ''SteamTools''],
      home w @ [''AppData'', ''Roaming'', ''SteamTools''],
      [''C:'', ''Program Files'', ''SteamTools''],
      [''C:'', ''Program Files (x86)'', ''SteamTools'']]"

text \<open>\<^verbatim>\<open>find_steamtools_exe\<close>: the first hit of the first common path that has one.\<close>

definition find_steamtools_exe :: "world \<Rightarrow> path option" where
  "find_steamtools_exe w =
     (case concat (map (\<lambda>base_path.
              if path_exists (fs w) base_path
              then rglob (fs w) base_path (\<lambda>n. n = ''SteamTools.exe'') else [])
            (common_paths w)) of
        [] \<Rightarrow> None
      | exe_file # _ \<Rightarrow> Some exe_file)"

text \<open>\<^verbatim>\<open>__init__\<close>.\<close>

definition downloader_init :: "world \<Rightarrow> steamtools_downloader" where
  "downloader_init w =
     \<lparr>games_cache = [],
      base_url = ''https://api.steampowered.com'',
      r2_base_url = ''https://pub-5b6d3b7c03fd4ac1afb5bd3017850e20.r2.dev'',
      steamtools_exe = find_steamtools_exe w,
      priv_steam_folder = None\<rparr>"

definition possible_paths :: "world \<Rightarrow> path list" where
  "possible_paths w =
     [(case environ w ''PROGRAMFILES(X86)'' of Some p \<Rightarrow> p | None \<Rightarrow> [''C:'', ''Program Files (x86)''])
        @ [''Steam''],
      (case environ w ''PROGRAMFILES'' of Some p \<Rightarrow> p | None \<Rightarrow> [''C:'', ''Program Files''])
        @ [''Steam''],
      [''C:'', ''Program Files (x86)'', ''Steam''],
      [''C:'', ''Program Files'', ''Steam'']]"

text \<open>\<^verbatim>\<open>find_steam_folder\<close>: the cached folder, or the first possible path that exists.\<close>

definition find_steam_folder ::
  "steamtools_downloader \<Rightarrow> world \<Rightarrow> path option \<times> steamtools_downloader" where
  "find_steam_folder d w =
     (case priv_steam_folder d of
        Some p \<Rightarrow> (Some p, d)
      | None \<Rightarrow>
          (case find (path_exists (fs w)) (possible_paths w) of
             Some steam_path \<Rightarrow> (Some steam_path, d\<lparr>priv_steam_folder := Some steam_path\<rparr>)
           | None \<Rightarrow> (None, d)))"

text \<open>
  \<^verbatim>\<open>download_appid_zip\<close>. The directory is made before the \<^verbatim>\<open>try\<close>, so its exception
  leaves the function; everything after it is caught and gives \<^verbatim>\<open>False\<close>.
  \<^verbatim>\<open>raise_for_status\<close> raises on the statuses 400 to 599.
\<close>

definition download_appid_zip ::
  "int \<Rightarrow> path \<Rightarrow> bool \<Rightarrow> steamtools_downloader \<Rightarrow> world \<Rightarrow> (exn + bool) \<times> log_msg list \<times> world" where
  "download_appid_zip app_id output_dir cb d w =
     (let log0 = emit cb (Downloading app_id) in
      case mkdir_parents output_dir (fs w) of
        Inl e \<Rightarrow> (Inl e, log0, w)
      | Inr f0 \<Rightarrow>
          (let url = r2_base_url d @ ''/'' @ str_int app_id @ ''.zip'';
               zip_name = str_int app_id @ ''.zip'';
               zip_path = output_dir @ [zip_name]
           in case http_get url (w\<lparr>fs := f0\<rparr>) of
                (Unreachable, w1) \<Rightarrow>
                  (Inr False, log0 @ emit cb (DownloadError ConnectionError), w1)
              | (Reply resp, w1) \<Rightarrow>
                  if status_code resp = 404
                  then (Inr False, log0 @ emit cb (NoDataFound app_id), w1)
                  else if 400 \<le> status_code resp \<and> status_code resp < 600
                  then (Inr False, log0 @ emit cb (DownloadError HTTPError), w1)
                  else
                    (case write_file zip_path (concat (chunks resp)) f0 of
                       Inl e \<Rightarrow> (Inr False, log0 @ emit cb (DownloadError e), w1)
                     | Inr f1 \<Rightarrow>
                         if \<not> stream_ok resp
                         then (Inr False, log0 @ emit cb (DownloadError ConnectionError),
                               w1\<lparr>fs := f1\<rparr>)
                         else
                           (let log1 = log0 @ emit cb (Downloaded zip_name) @ emit cb Extracting in
                            case unzip w (concat (chunks resp)) of
                              None \<Rightarrow>
                                (Inr False, log1 @ emit cb (DownloadError BadZipFile), w1\<lparr>fs := f1\<rparr>)
                            | Some entries \<Rightarrow>
                                (case extractall output_dir entries f1 of
                                   (Some e, f2) \<Rightarrow>
                                     (Inr False, log1 @ emit cb (DownloadError e), w1\<lparr>fs := f2\<rparr>)
                                 | (None, f2) \<Rightarrow>
                                     (let log2 = log1 @ emit cb ExtractedOk in
                                      case unlink zip_path f2 of
                                        Inl e \<Rightarrow>
                                          (Inr False, log2 @ emit cb (DownloadError e), w1\<lparr>fs := f2\<rparr>)
                                      | Inr f3 \<Rightarrow> (Inr True, log2, w1\<lparr>fs := f3\<rparr>)))))))"

text \<open>
  The two copy loops of \<^verbatim>\<open>copy_files_to_steam\<close>: each file goes to the folder under its
  own name; an exception of \<^verbatim>\<open>copy2\<close> is logged and the loop goes on.
\<close>

fun copy_all ::
  "path \<Rightarrow> path list \<Rightarrow> bool \<Rightarrow> filesystem \<times> log_msg list \<Rightarrow> filesystem \<times> log_msg list" where
  "copy_all folder [] cb (f, lg) = (f, lg)"
| "copy_all folder (file_path # rest) cb (f, lg) =
     (case copy2 file_path (folder @ [basename file_path]) f of
        Inr f' \<Rightarrow> copy_all folder rest cb (f', lg)
      | Inl e \<Rightarrow> copy_all folder rest cb (f, lg @ emit cb (CopyFailed e)))"

text \<open>
  \<^verbatim>\<open>copy_files_to_steam\<close>. The two \<^verbatim>\<open>mkdir\<close> calls are outside any \<^verbatim>\<open>try\<close>. The value
  returned after the copy loops is \<^verbatim>\<open>True\<close> whatever the loops and the cleanup did.
\<close>

definition copy_files_to_steam ::
  "path \<Rightarrow> bool \<Rightarrow> steamtools_downloader \<Rightarrow> world
     \<Rightarrow> (exn + bool) \<times> log_msg list \<times> steamtools_downloader \<times> world" where
  "copy_files_to_steam source_path cb d w =
     (let lua_files = rglob (fs w) source_path (suffix ''.lua'');
          manifest_files = rglob (fs w) source_path (suffix ''.manifest'');
          st_files = rglob (fs w) source_path (suffix ''.st'')
      in
      if lua_files = [] \<and> manifest_files = [] \<and> st_files = []
      then (Inr False, emit cb NoFilesFound, d, w)
      else
        (let log1 = emit cb CopyingToSteam in
         case find_steam_folder d w of
           (None, d1) \<Rightarrow> (Inr False, log1 @ emit cb SteamNotFound, d1, w)
         | (Some steam_folder, d1) \<Rightarrow>
             (let stplug_folder = steam_folder @ [''config'', ''stplug-in''];
                  depotcache_folder = steam_folder @ [''depotcache'']
              in case mkdir_parents stplug_folder (fs w) of
                   Inl e \<Rightarrow> (Inl e, log1, d1, w)
                 | Inr f1 \<Rightarrow>
                     (case mkdir_parents depotcache_folder f1 of
                        Inl e \<Rightarrow> (Inl e, log1, d1, w\<lparr>fs := f1\<rparr>)
                      | Inr f2 \<Rightarrow>
                          (let files_to_copy = lua_files @ st_files;
                               s3 = (if files_to_copy \<noteq> []
                                     then copy_all stplug_folder files_to_copy cb
                                            (f2, log1 @ emit cb CopyingPlugins)
                                     else (f2, log1));
                               s4 = (if manifest_files \<noteq> []
                                     then copy_all depotcache_folder manifest_files cb
                                            (fst s3, snd s3 @ emit cb CopyingManifests)
                                     else s3);
                               log5 = snd s4 @ emit cb CleaningUp
                           in case rmtree source_path (fst s4) of
                                Inr f5 \<Rightarrow> (Inr True, log5 @ emit cb DeletedTemp, d1, w\<lparr>fs := f5\<rparr>)
                              | Inl e \<Rightarrow>
                                  (Inr True, log5 @ emit cb (CouldNotDelete e), d1,
                                   w\<lparr>fs := fst s4\<rparr>))))))"

text \<open>
  \<^verbatim>\<open>launch_steamtools\<close>: a missing path is looked for again before the test; the launch
  is skipped when there is still none or the file is gone.
\<close>

definition launch_steamtools ::
  "bool \<Rightarrow> steamtools_downloader \<Rightarrow> world \<Rightarrow> bool \<times> log_msg list \<times> steamtools_downloader \<times> world" where
  "launch_steamtools cb d w =
     (let d1 = (if steamtools_exe d = None then d\<lparr>steamtools_exe := find_steamtools_exe w\<rparr> else d)
      in case steamtools_exe d1 of
           None \<Rightarrow> (False, emit cb SteamToolsNotFound, d1, w)
         | Some exe \<Rightarrow>
             if \<not> path_exists (fs w) exe then (False, emit cb SteamToolsNotFound, d1, w)
             else if can_spawn w exe
             then (True, emit cb SteamToolsLaunched, d1, w\<lparr>spawned := spawned w @ [exe]\<rparr>)
             else (False, emit cb (LaunchFailed OSError), d1, w))"

text \<open>
  \<^verbatim>\<open>get_app_details\<close>: one request to the store; every exception inside the \<^verbatim>\<open>try\<close> is
  swallowed and gives \<^verbatim>\<open>None\<close>.
\<close>

definition get_app_details :: "int \<Rightarrow> world \<Rightarrow> app_details \<times> world" where
  "get_app_details app_id w =
     (case http_get (''https://store.steampowered.com/api/appdetails?appids='' @ str_int app_id) w of
        (Unreachable, w') \<Rightarrow> (NoDetails, w')
      | (Reply resp, w') \<Rightarrow> (store_data resp, w'))"

text \<open>
  \<^verbatim>\<open>close_steam\<close>: \<^verbatim>\<open>taskkill\<close> is run by its name and taken to end within its ten
  seconds; whatever it reports, Steam counts as closed. A \<^verbatim>\<open>taskkill\<close> that cannot be
  spawned raises.
\<close>

definition close_steam :: "bool \<Rightarrow> world \<Rightarrow> bool \<times> log_msg list \<times> world" where
  "close_steam cb w =
     (if can_spawn w [''taskkill'']
      then (True, emit cb SteamClosed, w\<lparr>spawned := spawned w @ [[''taskkill'']]\<rparr>)
      else (False, emit cb (CouldNotClose OSError), w))"

text \<open>\<^verbatim>\<open>start_steam\<close>: nothing is logged when the folder or \<^verbatim>\<open>steam.exe\<close> is missing.\<close>

definition start_steam ::
  "bool \<Rightarrow> steamtools_downloader \<Rightarrow> world \<Rightarrow> bool \<times> log_msg list \<times> steamtools_downloader \<times> world" where
  "start_steam cb d w =
     (case find_steam_folder d w of
        (None, d1) \<Rightarrow> (False, [], d1, w)
      | (Some steam_folder, d1) \<Rightarrow>
          (let steam_exe = steam_folder @ [''steam.exe''] in
           if \<not> path_exists (fs w) steam_exe then (False, [], d1, w)
           else if can_spawn w steam_exe
           then (True, emit cb SteamStarted, d1, w\<lparr>spawned := spawned w @ [steam_exe]\<rparr>)
           else (False, emit cb (CouldNotStart OSError), d1, w)))"

section \<open>\<^verbatim>\<open>SteamToolsInstaller\<close>: the window\<close>

text \<open>
  The message boxes and the lines of the log area, one constructor per call of the source
  with the values its text interpolates; \<open>Callback\<close> is a message of the downloader.
\<close>

datatype dialog =
    MissingRequirementBox
  | InputRequiredBox
  | NotFoundBox string
  | SearchErrorBox exn
  | SelectionWarningBox
  | SelectionErrorBox exn
  | DownloadFailedBox
  | FatalErrorBox exn
  | SuccessBox

datatype log_line =
    Callback log_msg
  | InstallManually
  | Searching string
  | SearchFailed exn
  | SelectedAppId int
  | ProcessingAppId int
  | FetchingDetails
  | FoundGame string
  | DetailsNotAvailable
  | DownloadComplete
  | FilesInstalled
  | RestartingComponents
  | Complete
  | FatalErrorLine exn

text \<open>
  What is handed to \<^verbatim>\<open>root.after(0, ...)\<close>. \<open>WithException c\<close> is a \<^verbatim>\<open>lambda\<close> written inside
  an \<^verbatim>\<open>except Exception as e\<close> clause that reads \<^verbatim>\<open>e\<close> when it is called: Python unbinds
  \<^verbatim>\<open>e\<close> when the clause ends, so the call does what \<open>c\<close> does only if it comes before that,
  and raises \<^verbatim>\<open>NameError\<close>, which the event loop reports and survives, if it comes after.
\<close>

datatype callback =
    UpdateStatus string
  | Log log_line
  | DownloadThreadStart int
  | ShowMatchSelection "(string \<times> int) list"
  | MessageBox dialog
  | FinishProcessing
  | WithException callback

datatype thread = SearchThread string | DownloadThread int

text \<open>
  The state of the window that its handlers read and write: the downloader, the
  processing flag, the button, the progress bar, the log area, the status label, the
  entry, the message boxes shown so far, the worker threads that were started and have not
  run to their end, and the callbacks that \<^verbatim>\<open>root.after\<close> holds, oldest first.
\<close>

record steamtools_installer =
  downloader :: steamtools_downloader
  is_processing :: bool
  install_btn_enabled :: bool
  progress_running :: bool
  log_text :: "log_line list"
  status_label :: string
  search_entry :: string
  dialogs :: "dialog list"
  threads :: "thread list"
  after_queue :: "callback list"

text \<open>\<^verbatim>\<open>__init__\<close> of the window, the widgets reduced to the state above.\<close>

definition installer_init :: "world \<Rightarrow> steamtools_installer" where
  "installer_init w =
     (let g = \<lparr>downloader = downloader_init w,
               is_processing = False,
               install_btn_enabled = True,
               progress_running = False,
               log_text = [],
               status_label = ''Ready'',
               search_entry = [],
               dialogs = [],
               threads = [],
               after_queue = []\<rparr>
      in if steamtools_exe (downloader g) = None
         then g\<lparr>install_btn_enabled := False,
                status_label := ''ERROR: SteamTools not found.'',
                dialogs := [MissingRequirementBox],
                log_text := [InstallManually]\<rparr>
         else g)"

text \<open>\<^verbatim>\<open>start_download\<close>.\<close>

definition start_download :: "steamtools_installer \<Rightarrow> steamtools_installer" where
  "start_download g =
     (if is_processing g then g
      else if steamtools_exe (downloader g) = None
      then g\<lparr>dialogs := dialogs g @ [MissingRequirementBox]\<rparr>
      else
        (let query = strip (search_entry g) in
         if query = [] then g\<lparr>dialogs := dialogs g @ [InputRequiredBox]\<rparr>
         else g\<lparr>is_processing := True,
                install_btn_enabled := False,
                progress_running := True,
                log_text := [],
                threads := threads g @ [SearchThread query]\<rparr>))"

text \<open>\<^verbatim>\<open>finish_processing\<close>, \<^verbatim>\<open>log\<close>, \<^verbatim>\<open>update_status\<close> and \<^verbatim>\<open>download_thread_start\<close>.\<close>

definition finish_processing :: "steamtools_installer \<Rightarrow> steamtools_installer" where
  "finish_processing g =
     g\<lparr>is_processing := False,
       progress_running := False,
       install_btn_enabled := True,
       status_label := ''Ready''\<rparr>"

definition log_gui :: "log_line \<Rightarrow> steamtools_installer \<Rightarrow> steamtools_installer" where
  "log_gui message g = g\<lparr>log_text := log_text g @ [message]\<rparr>"

definition update_status :: "string \<Rightarrow> steamtools_installer \<Rightarrow> steamtools_installer" where
  "update_status status g = g\<lparr>status_label := status\<rparr>"

definition download_thread_start :: "int \<Rightarrow> steamtools_installer \<Rightarrow> steamtools_installer" where
  "download_thread_start app_id g =
     g\<lparr>after_queue := after_queue g @ [Log (SelectedAppId app_id)],
       threads := threads g @ [DownloadThread app_id]\<rparr>"

text \<open>
  \<^verbatim>\<open>initial_search_thread\<close>, the body of the thread that \<^verbatim>\<open>start_download\<close> starts: the
  callbacks it schedules, in order, and what the lookup did to the downloader and the
  world. Only the branch that finds nothing, and the \<^verbatim>\<open>except\<close> clause, schedule
  \<^verbatim>\<open>finish_processing\<close>.
\<close>

definition initial_search_thread ::
  "(string \<Rightarrow> string \<Rightarrow> rat) \<Rightarrow> string \<Rightarrow> steamtools_downloader \<Rightarrow> world
     \<Rightarrow> callback list \<times> steamtools_downloader \<times> world" where
  "initial_search_thread ratio query d w =
     (case find_game ratio query d w of
        (app_match_result, d', w') \<Rightarrow>
          ([UpdateStatus ''Searching for game...'', Log (Searching query)] @
           (case app_match_result of
              Inr (ResolvedId app_id) \<Rightarrow> [DownloadThreadStart app_id]
            | Inr (CandidateSet matches) \<Rightarrow> [ShowMatchSelection matches]
            | Inr NotFound \<Rightarrow> [MessageBox (NotFoundBox query), FinishProcessing]
            | Inl e \<Rightarrow>
                [WithException (Log (SearchFailed e)), WithException (MessageBox (SearchErrorBox e)),
                 FinishProcessing]),
           d', w'))"

text \<open>
  \<^verbatim>\<open>download_thread\<close>, the body of the thread that \<^verbatim>\<open>download_thread_start\<close> starts. The
  directory \<^verbatim>\<open>downloads\<close> of the two default arguments is the path of that one name. The
  results of the copy, of closing Steam and of the two launches are not looked at. The
  \<^verbatim>\<open>finally\<close> clause schedules \<^verbatim>\<open>finish_processing\<close> on every way out, also after the
  \<^verbatim>\<open>return\<close> of a failed download, which has scheduled it already.
\<close>

definition logged :: "log_msg list \<Rightarrow> callback list" where
  "logged lg = map (\<lambda>msg. Log (Callback msg)) lg"

definition fatal_error :: "exn \<Rightarrow> callback list" where
  "fatal_error e = [WithException (Log (FatalErrorLine e)), WithException (MessageBox (FatalErrorBox e))]"

definition download_thread ::
  "int \<Rightarrow> steamtools_downloader \<Rightarrow> world \<Rightarrow> callback list \<times> steamtools_downloader \<times> world" where
  "download_thread app_id d w =
     (let cbs0 = [Log (ProcessingAppId app_id), UpdateStatus ''Getting game details...'',
                  Log FetchingDetails]
      in case get_app_details app_id w of
           (app_details, w1) \<Rightarrow>
             if app_details = NotAnObject
             then (cbs0 @ fatal_error AttributeError @ [FinishProcessing], d, w1)
             else
               (let cbs1 = cbs0 @
                      [Log (case app_details of Details game_name \<Rightarrow> FoundGame game_name
                                              | _ \<Rightarrow> DetailsNotAvailable),
                       UpdateStatus ''Downloading files...'']
                in case download_appid_zip app_id [''downloads''] True d w1 of
                     (Inl e, lg2, w2) \<Rightarrow>
                       (cbs1 @ logged lg2 @ fatal_error e @ [FinishProcessing], d, w2)
                   | (Inr success, lg2, w2) \<Rightarrow>
                       if \<not> success
                       then (cbs1 @ logged lg2 @ [MessageBox DownloadFailedBox, FinishProcessing]
                               @ [FinishProcessing], d, w2)
                       else
                         (let cbs2 = cbs1 @ logged lg2 @
                                [Log DownloadComplete, UpdateStatus ''Installing files...'']
                          in case copy_files_to_steam [''downloads''] True d w2 of
                               (Inl e, lg3, d3, w3) \<Rightarrow>
                                 (cbs2 @ logged lg3 @ fatal_error e @ [FinishProcessing], d3, w3)
                             | (Inr files_copied, lg3, d3, w3) \<Rightarrow>
                                 (case close_steam True w3 of
                                    (steam_closed, lg4, w4) \<Rightarrow>
                                      (case launch_steamtools True d3 w4 of
                                         (tools_launched, lg5, d5, w5) \<Rightarrow>
                                           (case start_steam True d5 w5 of
                                              (steam_started, lg6, d6, w6) \<Rightarrow>
                                                (cbs2 @ logged lg3 @
                                                 [Log FilesInstalled,
                                                  UpdateStatus ''Restarting Steam components...'',
                                                  Log RestartingComponents] @
                                                 logged lg4 @ logged lg5 @ logged lg6 @
                                                 [UpdateStatus ''Complete!'', Log Complete,
                                                  MessageBox SuccessBox] @
                                                 [FinishProcessing], d6, w6)))))))"

text \<open>
  \<^verbatim>\<open>show_match_selection\<close>. The dialog lists \<^verbatim>\<open>f"{name[:40]} (ID: {app_id})"\<close> for every
  match and waits for the user, whose clicks are given in order: Confirm with the index
  selected in the list, if any, Cancel, or closing the dialog, which is also what happens
  when the clicks run out. \<open>search_id\<close> is \<^verbatim>\<open>re.search(r'\(ID: (\d+)\)', text)\<close>.
\<close>

datatype click = Confirm "nat option" | Cancel | CloseWindow

definition listbox_entry :: "string \<times> int \<Rightarrow> string" where
  "listbox_entry m = take 40 (fst m) @ '' (ID: '' @ str_int (snd m) @ '')''"

fun search_id :: "string \<Rightarrow> string option" where
  "search_id [] = None"
| "search_id (c # cs) =
     (let ds = takeWhile is_decimal (drop 5 (c # cs)) in
      if prefix ''(ID: '' (c # cs) \<and> ds \<noteq> [] \<and> prefix '')'' (drop (5 + length ds) (c # cs))
      then Some ds else search_id cs)"

fun show_match_selection ::
  "(string \<times> int) list \<Rightarrow> click list \<Rightarrow> steamtools_installer \<Rightarrow> steamtools_installer" where
  "show_match_selection matches [] g = g"
| "show_match_selection matches (CloseWindow # rest) g = g"
| "show_match_selection matches (Cancel # rest) g = finish_processing g"
| "show_match_selection matches (Confirm selection # rest) g =
     (case (case selection of
              Some i \<Rightarrow> if i < length matches then search_id (listbox_entry (matches ! i)) else None
            | None \<Rightarrow> None) of
        Some ds \<Rightarrow>
          (case py_int ds of
             Inr app_id \<Rightarrow> download_thread_start app_id g
           | Inl e \<Rightarrow> finish_processing (g\<lparr>dialogs := dialogs g @ [SelectionErrorBox e]\<rparr>))
      | None \<Rightarrow>
          show_match_selection matches rest (g\<lparr>dialogs := dialogs g @ [SelectionWarningBox]\<rparr>))"

text \<open>
  One callback run by the event loop. What the callback cannot know is given with it:
  whether the \<^verbatim>\<open>except\<close> clause that scheduled it is still running, and what the user
  clicks in the selection dialog.
\<close>

datatype answer = Answer (still_bound: bool) (clicks: "click list")

fun run_callback :: "answer \<Rightarrow> callback \<Rightarrow> steamtools_installer \<Rightarrow> steamtools_installer" where
  "run_callback a (UpdateStatus s) g = update_status s g"
| "run_callback a (Log m) g = log_gui m g"
| "run_callback a (DownloadThreadStart app_id) g = download_thread_start app_id g"
| "run_callback a (ShowMatchSelection matches) g = show_match_selection matches (clicks a) g"
| "run_callback a (MessageBox b) g = g\<lparr>dialogs := dialogs g @ [b]\<rparr>"
| "run_callback a FinishProcessing g = finish_processing g"
| "run_callback a (WithException c) g = (if still_bound a then run_callback a c g else g)"

text \<open>A worker thread runs to its end: its callbacks join the queue in the order scheduled.\<close>

definition run_thread ::
  "(string \<Rightarrow> string \<Rightarrow> rat) \<Rightarrow> thread \<Rightarrow> steamtools_installer \<times> world
     \<Rightarrow> steamtools_installer \<times> world" where
  "run_thread ratio t gw =
     (case gw of
        (g, w) \<Rightarrow>
          (case (case t of
                   SearchThread query \<Rightarrow> initial_search_thread ratio query (downloader g) w
                 | DownloadThread app_id \<Rightarrow> download_thread app_id (downloader g) w) of
             (cbs, d', w') \<Rightarrow> (g\<lparr>downloader := d', after_queue := after_queue g @ cbs\<rparr>, w')))"

text \<open>
  What happens to the window, one step at a time: the user edits the entry or asks for a
  download (the button, or Return in the entry); the \<open>k\<close>-th of the started threads runs to
  its end; the event loop runs the oldest callback of the queue. A run of the program is
  a sequence of such steps, in any order.
\<close>

datatype action = Edit string | Press | Work nat | Next answer

fun step ::
  "(string \<Rightarrow> string \<Rightarrow> rat) \<Rightarrow> steamtools_installer \<times> world \<Rightarrow> action
     \<Rightarrow> steamtools_installer \<times> world" where
  "step ratio (g, w) (Edit s) = (g\<lparr>search_entry := s\<rparr>, w)"
| "step ratio (g, w) Press = (start_download g, w)"
| "step ratio (g, w) (Work k) =
     (if k < length (threads g)
      then run_thread ratio (threads g ! k) (g\<lparr>threads := take k (threads g) @ drop (Suc k) (threads g)\<rparr>, w)
      else (g, w))"
| "step ratio (g, w) (Next a) =
     (case after_queue g of
        [] \<Rightarrow> (g, w)
      | c # cs \<Rightarrow> (run_callback a c (g\<lparr>after_queue := cs\<rparr>), w))"


section \<open>Notions used in the statements\<close>

text \<open>The pattern \<^verbatim>\<open>/app/(\d+)\<close> matches at the very start of the string.\<close>

definition match_here :: "string \<Rightarrow> bool" where
  "match_here s = (prefix ''/app/'' s \<and> takeWhile is_decimal (drop 5 s) \<noteq> [])"

text \<open>
  The catalog request that \<^verbatim>\<open>get_app_list\<close> would make now fails: \<^verbatim>\<open>requests.get\<close> raises,
  or the body does not decode to a list of apps.
\<close>

definition fetch_fails :: "steamtools_downloader \<Rightarrow> world \<Rightarrow> bool" where
  "fetch_fails d w =
     (case http w (length (requests w)) (base_url d @ ''/ISteamApps/GetAppList/v2/'') of
        Unreachable \<Rightarrow> True
      | Reply resp \<Rightarrow> app_list resp = None)"

text \<open>A name with one of the three extensions the installer looks for.\<close>

definition recognized :: "string \<Rightarrow> bool" where
  "recognized n = (suffix ''.lua'' n \<or> suffix ''.manifest'' n \<or> suffix ''.st'' n)"

text \<open>The file system after the two copy loops, before the cleanup.\<close>

definition after_copies ::
  "path \<Rightarrow> path \<Rightarrow> bool \<Rightarrow> world \<Rightarrow> filesystem \<Rightarrow> filesystem" where
  "after_copies source_path steam_folder cb w f2 =
     (let lua_files = rglob (fs w) source_path (suffix ''.lua'');
          manifest_files = rglob (fs w) source_path (suffix ''.manifest'');
          st_files = rglob (fs w) source_path (suffix ''.st'');
          f3 = (if lua_files @ st_files \<noteq> []
                then fst (copy_all (steam_folder @ [''config'', ''stplug-in'']) (lua_files @ st_files) cb
                       (f2, emit cb CopyingToSteam @ emit cb CopyingPlugins))
                else f2)
      in if manifest_files \<noteq> []
         then fst (copy_all (steam_folder @ [''depotcache'']) manifest_files cb (f3, []))
         else f3)"

text \<open>
  The dictionary that \<^verbatim>\<open>get_app_list\<close> builds from the apps of a reply, and a query that
  neither is a key of a catalog nor has a name there that reaches the cutoff.
\<close>

definition catalog_of :: "(string \<times> int) list \<Rightarrow> (string \<times> int) list" where
  "catalog_of apps = foldl (\<lambda>g (n, i). AList.update (lower n) i g) [] apps"

definition no_match :: "(string \<Rightarrow> string \<Rightarrow> rat) \<Rightarrow> string \<Rightarrow> (string \<times> int) list \<Rightarrow> bool" where
  "no_match ratio query games =
     (map_of games (lower query) = None
      \<and> list_all (\<lambda>x. ratio x (lower query) < 7 / 10) (map fst games))"

text \<open>
  What carries a run on. A run is alive in a worker thread, or in a callback that will
  start its download thread, open its selection dialog or end it; \<open>tokens\<close> counts these.
  \<open>one_run\<close> says that there is at most one of them, and none when the flag is clear.
\<close>

fun token :: "callback \<Rightarrow> nat" where
  "token (DownloadThreadStart app_id) = 1"
| "token (ShowMatchSelection matches) = 1"
| "token FinishProcessing = 1"
| "token (WithException c) = token c"
| "token c = 0"

definition tokens :: "steamtools_installer \<Rightarrow> nat" where
  "tokens g = length (threads g) + sum_list (map token (after_queue g))"

definition one_run :: "steamtools_installer \<Rightarrow> bool" where
  "one_run g = (tokens g \<le> (if is_processing g then 1 else 0))"

text \<open>
  The download of \<^verbatim>\<open>download_thread\<close> returns \<^verbatim>\<open>False\<close>; a step in which a download
  thread runs into that; and a sequence of steps none of which does.
\<close>

definition download_fails :: "int \<Rightarrow> steamtools_downloader \<Rightarrow> world \<Rightarrow> bool" where
  "download_fails app_id d w =
     (case get_app_details app_id w of
        (app_details, w1) \<Rightarrow>
          app_details \<noteq> NotAnObject
          \<and> fst (download_appid_zip app_id [''downloads''] True d w1) = Inr False)"

definition failing_step :: "steamtools_installer \<times> world \<Rightarrow> action \<Rightarrow> bool" where
  "failing_step gw act =
     (case act of
        Work k \<Rightarrow>
          (case gw of
             (g, w) \<Rightarrow>
               k < length (threads g)
               \<and> (case threads g ! k of
                     DownloadThread app_id \<Rightarrow> download_fails app_id (downloader g) w
                   | SearchThread query \<Rightarrow> False))
      | _ \<Rightarrow> False)"

fun no_failed_download ::
  "(string \<Rightarrow> string \<Rightarrow> rat) \<Rightarrow> steamtools_installer \<times> world \<Rightarrow> action list \<Rightarrow> bool" where
  "no_failed_download ratio gw [] = True"
| "no_failed_download ratio gw (act # acts) =
     (\<not> failing_step gw act \<and> no_failed_download ratio (step ratio gw act) acts)"

section \<open>Example worlds\<close>

text \<open>
  Concrete inputs on which the theorems below are evaluated: a machine with the given
  files and network, the home directory of one user, no environment variable set, no
  request made yet, bytes that are never a zip archive, and every spawn succeeding.
\<close>

definition world_of :: "filesystem \<Rightarrow> (nat \<Rightarrow> string \<Rightarrow> http_reply) \<Rightarrow> world" where
  "world_of f net =
     \<lparr>fs = f, home = [''C:'', ''Users'', ''user''], environ = (\<lambda>_. None), http = net,
      requests = [], unzip = (\<lambda>_. None), can_spawn = (\<lambda>_. True), spawned = []\<rparr>"

definition offline :: "nat \<Rightarrow> string \<Rightarrow> http_reply" where
  "offline n url = Unreachable"

text \<open>A network whose first request fails and whose later requests return a catalog.\<close>

definition catalog_reply :: http_reply where
  "catalog_reply =
     Reply \<lparr>status_code = 200,
            app_list = Some [(''Half-Life'', 70), (''Half-Life 2'', 220), (''Portal'', 400)],
            chunks = [], stream_ok = True, store_data = NoDetails\<rparr>"

definition flaky :: "nat \<Rightarrow> string \<Rightarrow> http_reply" where
  "flaky n url = (if n = 0 then Unreachable else catalog_reply)"

definition online :: "nat \<Rightarrow> string \<Rightarrow> http_reply" where
  "online n url = catalog_reply"

text \<open>A network that answers every request with status 404.\<close>

definition not_found_reply :: http_reply where
  "not_found_reply =
     Reply \<lparr>status_code = 404, app_list = None, chunks = [], stream_ok = True,
            store_data = NoDetails\<rparr>"

definition no_archive :: "nat \<Rightarrow> string \<Rightarrow> http_reply" where
  "no_archive n url = not_found_reply"

text \<open>
  A stand-in for the library's similarity on which the fuzzy search can be run: twice the
  length of the longest common prefix over the sum of the lengths.
\<close>

definition prefix_ratio :: "string \<Rightarrow> string \<Rightarrow> rat" where
  "prefix_ratio x word =
     (if x = [] \<and> word = [] then 1
      else of_nat (2 * length (longest_common_prefix x word)) / of_nat (length x + length word))"


text \<open>The catalog address, and the cache built from \<open>catalog_reply\<close>.\<close>

definition catalog_url :: string where
  "catalog_url = ''https://api.steampowered.com/ISteamApps/GetAppList/v2/''"

definition cached_catalog :: "(string \<times> int) list" where
  "cached_catalog = [(''half-life'', 70), (''half-life 2'', 220), (''portal'', 400)]"

text \<open>A machine on which SteamTools is installed, and a window there with an id typed in.\<close>

definition steamtools_fs :: filesystem where
  "steamtools_fs =
     [([''C:''], Dir),
      ([''C:'', ''Program Files''], Dir),
      ([''C:'', ''Program Files'', ''SteamTools''], Dir),
      ([''C:'', ''Program Files'', ''SteamTools'', ''SteamTools.exe''], File ''MZ'' True)]"

definition steamtools_path :: path where
  "steamtools_path = [''C:'', ''Program Files'', ''SteamTools'', ''SteamTools.exe'']"


text \<open>The address of the archive of app 220.\<close>

definition archive_url :: string where
  "archive_url = ''https://pub-5b6d3b7c03fd4ac1afb5bd3017850e20.r2.dev/220.zip''"

text \<open>The Steam folder at the first place \<^verbatim>\<open>find_steam_folder\<close> looks.\<close>

definition steam_root :: path where
  "steam_root = [''C:'', ''Program Files (x86)'', ''Steam'']"

definition steam_dirs :: filesystem where
  "steam_dirs =
     [([''C:''], Dir),
      ([''C:'', ''Program Files (x86)''], Dir),
      ([''C:'', ''Program Files (x86)'', ''Steam''], Dir)]"

text \<open>Two scripts staged, and the place of the first one taken by a read-only file.\<close>

definition locked_fs :: filesystem where
  "locked_fs = steam_dirs @
     [([''C:'', ''Program Files (x86)'', ''Steam'', ''config''], Dir),
      ([''C:'', ''Program Files (x86)'', ''Steam'', ''config'', ''stplug-in''], Dir),
      ([''C:'', ''Program Files (x86)'', ''Steam'', ''config'', ''stplug-in'', ''a.lua''],
         File ''old'' False),
      ([''downloads''], Dir),
      ([''downloads'', ''a.lua''], File ''aaa'' True),
      ([''downloads'', ''b.lua''], File ''bbb'' True)]"

text \<open>The same two scripts staged on a fresh Steam folder.\<close>

definition fresh_fs :: filesystem where
  "fresh_fs = steam_dirs @
     [([''downloads''], Dir),
      ([''downloads'', ''a.lua''], File ''aaa'' True),
      ([''downloads'', ''b.lua''], File ''bbb'' True)]"

text \<open>A staging directory with nothing to install, and a machine without Steam.\<close>

definition idle_fs :: filesystem where
  "idle_fs = steam_dirs @
     [([''downloads''], Dir),
      ([''downloads'', ''readme.txt''], File ''hello'' True)]"

definition steamless_fs :: filesystem where
  "steamless_fs =
     [([''downloads''], Dir),
      ([''downloads'', ''a.lua''], File ''aaa'' True)]"

text \<open>Two scripts of one name staged in two subdirectories.\<close>

definition twin_fs :: filesystem where
  "twin_fs = steam_dirs @
     [([''downloads''], Dir),
      ([''downloads'', ''one''], Dir),
      ([''downloads'', ''one'', ''x.lua''], File ''first'' True),
      ([''downloads'', ''two''], Dir),
      ([''downloads'', ''two'', ''x.lua''], File ''second'' True)]"

text \<open>The apps of \<open>catalog_reply\<close>.\<close>

definition catalog_apps :: "(string \<times> int) list" where
  "catalog_apps = [(''Half-Life'', 70), (''Half-Life 2'', 220), (''Portal'', 400)]"

text \<open>A number of 4301 digits.\<close>

definition long_number :: string where
  "long_number = replicate 4301 (CHR ''1'')"

text \<open>The two scripts of one name, the first of them read-only.\<close>

definition twin_locked_fs :: filesystem where
  "twin_locked_fs = steam_dirs @
     [([''downloads''], Dir),
      ([''downloads'', ''one''], Dir),
      ([''downloads'', ''one'', ''x.lua''], File ''first'' False),
      ([''downloads'', ''two''], Dir),
      ([''downloads'', ''two'', ''x.lua''], File ''second'' True)]"


definition promptly :: answer where
  "promptly = Answer True []"


text \<open>
  A session with the catalog in reach: the user types a name with a letter missing, asks
  for it, confirms the first of the names offered, and asks again at once.
\<close>

definition catalog_world :: world where
  "catalog_world = world_of steamtools_fs online"

definition portal_run :: "action list" where
  "portal_run =
     [Edit ''Portl'', Press, Work 0, Next promptly, Next promptly,
      Next (Answer True [Confirm (Some 0)]), Press]"

section \<open>Resolution of URLs and numeric queries\<close>

lemma contains_set: "contains needle hay \<Longrightarrow> set needle \<subseteq> set hay"
proof (induction hay)
  case Nil
  then show ?case by simp
next
  case (Cons a hay)
  from Cons.prems have "prefix needle (a # hay) \<or> contains needle hay" by simp
  then show ?case
  proof
    assume "prefix needle (a # hay)"
    then show ?thesis by (rule set_mono_prefix)
  next
    assume "contains needle hay"
    then have "set needle \<subseteq> set hay" by (rule Cons.IH)
    then show ?thesis by auto
  qed
qed

lemma decimal_not_host:
  assumes "list_all is_decimal s"
  shows "\<not> contains ''store.steampowered.com'' s" and "\<not> contains ''steamcommunity.com'' s"
proof -
  have nd: "\<not> is_decimal CHR ''s''" by (simp add: is_decimal_def)
  have no: "\<not> contains needle s" if "CHR ''s'' \<in> set needle" for needle
  proof
    assume "contains needle s"
    with that have "CHR ''s'' \<in> set s" using contains_set by blast
    with assms have "is_decimal CHR ''s''" by (simp add: list_all_iff)
    with nd show False by simp
  qed
  show "\<not> contains ''store.steampowered.com'' s" by (rule no) simp
  show "\<not> contains ''steamcommunity.com'' s" by (rule no) simp
qed

lemma decimal_isdigit: "s \<noteq> [] \<Longrightarrow> list_all is_decimal s \<Longrightarrow> isdigit s"
  by (auto simp: isdigit_def isdigit_char_def list_all_iff)


lemma ex_decimal_220: "list_all is_decimal ''220''"
  by (simp add: is_decimal_def)

lemma ex_length_220: "length ''220'' \<le> max_str_digits"
  by (simp add: max_str_digits_def)

lemma ex_int_220: "int_of_digits ''220'' = 220"
  by (simp add: int_of_digits_def digit_val_def)

text \<open>
  C8, as the code has it. A query that is a non-empty string of decimal digits, of at
  most 4300 digits (the strings \<^verbatim>\<open>int()\<close> converts), resolves to its decimal value; the downloader and the
  world are returned unchanged, so the catalog is neither requested nor cached. Such a
  string never contains a store or community host, so the URL branch is not taken.
\<close>

theorem find_game_numeric:
  assumes "s \<noteq> []" and "list_all is_decimal s" and "length s \<le> max_str_digits"
  shows "find_game ratio s d w = (Inr (ResolvedId (int_of_digits s)), d, w)"
  using assms decimal_not_host[OF assms(2)] decimal_isdigit[OF assms(1,2)]
  by (simp add: find_game_def py_int_def)

theorem find_game_numeric_witness:
  "find_game prefix_ratio ''220'' (downloader_init (world_of [] offline)) (world_of [] offline)
     = (Inr (ResolvedId 220), downloader_init (world_of [] offline), world_of [] offline)"
  using find_game_numeric [of "''220''" prefix_ratio "downloader_init (world_of [] offline)"
      "world_of [] offline", OF _ ex_decimal_220 ex_length_220]
  by (simp only: ex_int_220) simp

text \<open>
  C8 as stated fails: \<^verbatim>\<open>find_game\<close> tests the query with \<^verbatim>\<open>isdigit\<close> and hands it to
  \<^verbatim>\<open>int()\<close>, which raises \<^verbatim>\<open>ValueError\<close> on a number of 4301 digits and on the superscript
  two, both of which pass the test.
\<close>

lemma ex_long_decimal: "list_all is_decimal long_number"
  by (simp add: long_number_def list_all_iff is_decimal_def)

lemma ex_long_isdigit: "isdigit long_number"
  using ex_long_decimal by (simp add: isdigit_def isdigit_char_def list_all_iff long_number_def)

theorem find_game_numeric_counterexample:
  "isdigit long_number
   \<and> find_game prefix_ratio long_number (downloader_init (world_of [] offline)) (world_of [] offline)
       = (Inl ValueError, downloader_init (world_of [] offline), world_of [] offline)
   \<and> isdigit [CHR 0xB2]
   \<and> find_game prefix_ratio [CHR 0xB2] (downloader_init (world_of [] offline)) (world_of [] offline)
       = (Inl ValueError, downloader_init (world_of [] offline), world_of [] offline)"
proof -
  have len: "length long_number = 4301" by (simp add: long_number_def)
  have long: "find_game prefix_ratio long_number (downloader_init (world_of [] offline))
      (world_of [] offline)
      = (Inl ValueError, downloader_init (world_of [] offline), world_of [] offline)"
    using decimal_not_host [OF ex_long_decimal] ex_long_isdigit len
    by (simp add: find_game_def py_int_def max_str_digits_def)
  have sup: "isdigit [CHR 0xB2]"
    by (simp add: isdigit_def isdigit_char_def)
  have short: "find_game prefix_ratio [CHR 0xB2] (downloader_init (world_of [] offline))
      (world_of [] offline)
      = (Inl ValueError, downloader_init (world_of [] offline), world_of [] offline)"
    by (simp add: find_game_def isdigit_def isdigit_char_def is_decimal_def py_int_def)
  from ex_long_isdigit long sup short show ?thesis by blast
qed

lemma takeWhile_run:
  assumes "list_all is_decimal ds" and "post = [] \<or> \<not> is_decimal (hd post)"
  shows "takeWhile is_decimal (ds @ post) = ds"
proof -
  have "takeWhile is_decimal post = []" using assms(2) by (cases post) auto
  with assms(1) show ?thesis by (simp add: takeWhile_append2 list_all_iff)
qed

lemma match_here_iff: "match_here s \<longleftrightarrow> (\<exists>d rest. s = ''/app/'' @ d # rest \<and> is_decimal d)"
proof
  assume "match_here s"
  then obtain r where s: "s = ''/app/'' @ r" and t: "takeWhile is_decimal r \<noteq> []"
    by (auto simp: match_here_def prefix_def)
  then obtain d rest where "r = d # rest" "is_decimal d" by (cases r) (auto split: if_splits)
  with s show "\<exists>d rest. s = ''/app/'' @ d # rest \<and> is_decimal d" by blast
next
  assume "\<exists>d rest. s = ''/app/'' @ d # rest \<and> is_decimal d"
  then show "match_here s" by (auto simp: match_here_def)
qed

lemma app_not_decimal: "i < 5 \<Longrightarrow> \<not> is_decimal (''/app/'' ! i)"
proof -
  assume "i < 5"
  then have "i = 0 \<or> i = 1 \<or> i = 2 \<or> i = 3 \<or> i = 4" by arith
  then show ?thesis by (auto simp: is_decimal_def)
qed

lemma match_here_append:
  assumes "match_here (p @ ''/app/'' @ r)" and "p \<noteq> []"
  shows "match_here p"
proof -
  define s where "s = p @ ''/app/'' @ r"
  from assms(1) obtain d rest where s: "s = ''/app/'' @ d # rest" and d: "is_decimal d"
    unfolding s_def [symmetric] match_here_iff by blast
  have s5: "s ! 5 = d" by (simp add: s)
  show ?thesis
  proof (cases "length p \<le> 5")
    case True
    have k: "5 - length p < length ''/app/''" using assms(2) by (cases p) auto
    from True have "s ! 5 = (''/app/'' @ r) ! (5 - length p)"
      using assms(2) unfolding s_def by (simp add: nth_append)
    also have "\<dots> = ''/app/'' ! (5 - length p)"
      using k by (simp only: nth_append if_True)
    finally have "d = ''/app/'' ! (5 - length p)" using s5 by simp
    moreover have "5 - length p < 5" using assms(2) by (cases p) auto
    ultimately show ?thesis using d app_not_decimal by metis
  next
    case False
    then have l: "6 \<le> length p" by simp
    then have "take 6 s = take 6 p" unfolding s_def by simp
    moreover have "take 6 s = ''/app/'' @ [d]" by (simp add: s)
    ultimately have "take 6 p = ''/app/'' @ [d]" by simp
    then have "p = (''/app/'' @ [d]) @ drop 6 p" by (metis append_take_drop_id)
    then have "p = ''/app/'' @ d # drop 6 p" by simp
    with d show ?thesis unfolding match_here_iff by blast
  qed
qed

lemma search_app_Cons:
  "search_app (c # cs) =
     (if match_here (c # cs) then Some (takeWhile is_decimal (drop 5 (c # cs))) else search_app cs)"
  by (simp add: match_here_def)

lemma search_app_None: "search_app (c # cs) = None \<Longrightarrow> \<not> match_here (c # cs) \<and> search_app cs = None"
  by (auto simp: match_here_def split: if_splits)

lemma search_app_skip:
  assumes "search_app pre = None"
  shows "search_app (pre @ ''/app/'' @ r) = search_app (''/app/'' @ r)"
  using assms
proof (induction pre)
  case Nil
  show ?case by simp
next
  case (Cons c cs)
  define t where "t = cs @ ''/app/'' @ r"
  have ct: "(c # cs) @ ''/app/'' @ r = c # t" by (simp add: t_def)
  from Cons.prems have nm: "\<not> match_here (c # cs)" and rest: "search_app cs = None"
    using search_app_None by blast+
  have "\<not> match_here ((c # cs) @ ''/app/'' @ r)"
    using nm match_here_append by blast
  then have "\<not> match_here (c # t)" unfolding ct .
  then have "search_app (c # t) = search_app t"
    by (subst search_app_Cons) simp
  with Cons.IH[OF rest] show ?case by (simp only: ct t_def)
qed

lemma search_app_segment:
  assumes "search_app pre = None" and "ds \<noteq> []" and "list_all is_decimal ds"
    and "post = [] \<or> \<not> is_decimal (hd post)"
  shows "search_app (pre @ ''/app/'' @ ds @ post) = Some ds"
proof -
  have "takeWhile is_decimal (ds @ post) = ds" using assms(3,4) by (rule takeWhile_run)
  with assms(2) have "search_app (''/app/'' @ ds @ post) = Some ds" by simp
  with search_app_skip[OF assms(1)] show ?thesis by simp
qed


lemma ex_store_host:
  "contains ''store.steampowered.com'' ''https://store.steampowered.com/app/220/Half_Life_2/''"
  by simp

lemma ex_store_split:
  "''https://store.steampowered.com/app/220/Half_Life_2/''
     = ''https://store.steampowered.com'' @ ''/app/'' @ ''220'' @ ''/Half_Life_2/''"
  by simp

lemma ex_store_before: "search_app ''https://store.steampowered.com'' = None"
  by simp

lemma ex_store_after: "''/Half_Life_2/'' = [] \<or> \<not> is_decimal (hd ''/Half_Life_2/'')"
  by (simp add: is_decimal_def)

lemma ex_other_host:
  "\<not> contains ''store.steampowered.com'' ''https://example.com/app/220''"
  "\<not> contains ''steamcommunity.com'' ''https://example.com/app/220''"
  "\<not> isdigit ''https://example.com/app/220''"
  by (simp_all add: isdigit_def isdigit_char_def is_decimal_def)

text \<open>
  C3, as the code has it. The pattern is searched only in a query that contains
  \<^verbatim>\<open>store.steampowered.com\<close> or \<^verbatim>\<open>steamcommunity.com\<close>. For such a query, whatever stands
  before and after the segment, the leftmost \<^verbatim>\<open>/app/\<close> followed by a digit gives the
  result: the value of the whole run of digits (of at most 4300 digits). The downloader
  and the world are returned unchanged, so the catalog is not touched.
\<close>

theorem find_game_store_url:
  assumes "contains ''store.steampowered.com'' q \<or> contains ''steamcommunity.com'' q"
    and "q = pre @ ''/app/'' @ ds @ post"
    and "search_app pre = None"
    and "ds \<noteq> []" and "list_all is_decimal ds"
    and "post = [] \<or> \<not> is_decimal (hd post)"
    and "length ds \<le> max_str_digits"
  shows "find_game ratio q d w = (Inr (ResolvedId (int_of_digits ds)), d, w)"
proof -
  have "search_app q = Some ds"
    unfolding assms(2) using assms(3-6) by (rule search_app_segment)
  with assms(1,4,5,7) show ?thesis
    by (simp add: find_game_def py_int_def)
qed

theorem find_game_store_url_witness:
  "find_game prefix_ratio ''https://store.steampowered.com/app/220/Half_Life_2/''
       (downloader_init (world_of [] offline)) (world_of [] offline)
     = (Inr (ResolvedId 220), downloader_init (world_of [] offline), world_of [] offline)"
  using find_game_store_url [of "''https://store.steampowered.com/app/220/Half_Life_2/''"
      "''https://store.steampowered.com''" "''220''" "''/Half_Life_2/''" prefix_ratio
      "downloader_init (world_of [] offline)" "world_of [] offline",
      OF disjI1 [OF ex_store_host] ex_store_split ex_store_before _ ex_decimal_220
         ex_store_after ex_length_220]
  by (simp only: ex_int_220) simp

text \<open>
  C3 as stated fails: a URL of another host with the segment \<^verbatim>\<open>/app/220\<close> is not
  resolved to 220. It is looked up as a name, which requests the catalog, and with the
  network down the answer is \<^verbatim>\<open>None\<close>.
\<close>

theorem find_game_other_url_counterexample:
  "fst (find_game prefix_ratio ''https://example.com/app/220''
          (downloader_init (world_of [] offline)) (world_of [] offline)) = Inr NotFound
   \<and> requests (snd (snd (find_game prefix_ratio ''https://example.com/app/220''
          (downloader_init (world_of [] offline)) (world_of [] offline))))
       = [''https://api.steampowered.com/ISteamApps/GetAppList/v2/'']"
  by (simp add: find_game_def ex_other_host downloader_init_def world_of_def offline_def
      get_app_list_def http_get_def del: contains.simps)

section \<open>Fuzzy matching\<close>

lemma get_close_matches_length: "length (get_close_matches ratio word ps n c) \<le> n"
  by (simp add: get_close_matches_def)

lemma get_close_matches_set:
  "set (get_close_matches ratio word ps n c) \<subseteq> {x \<in> set ps. c \<le> ratio x word}"
proof -
  let ?result = "map (\<lambda>x. (ratio x word, x)) (filter (\<lambda>x. c \<le> ratio x word) ps)"
  have "set (take n (rev (sort ?result))) \<subseteq> set ?result"
    using set_take_subset [of n "rev (sort ?result)"] by simp
  then have "snd ` set (take n (rev (sort ?result))) \<subseteq> snd ` set ?result"
    by (rule image_mono)
  also have "snd ` set ?result = {x \<in> set ps. c \<le> ratio x word}"
    by (auto simp: image_iff)
  finally show ?thesis by (simp add: get_close_matches_def)
qed

lemma get_close_matches_single:
  assumes "filter (\<lambda>x. c \<le> ratio x word) ps = [k]" and "0 < n"
  shows "get_close_matches ratio word ps n c = [k]"
  using assms by (cases n) (simp_all add: get_close_matches_def)

lemma pair_ids_Inr:
  "pair_ids games ms = Inr ps \<Longrightarrow>
     map fst ps = ms \<and> (\<forall>(n, i) \<in> set ps. map_of games n = Some i)"
proof (induction ms arbitrary: ps)
  case Nil
  then show ?case by simp
next
  case (Cons m ms)
  then show ?case
    by (auto split: option.splits sum.splits)
qed

lemma get_app_list_cache: "get_app_list d w = (games, d', w') \<Longrightarrow> games_cache d' = games"
  by (auto simp: get_app_list_def Let_def split: if_splits prod.splits http_reply.splits option.splits)

lemma find_game_candidates:
  assumes "find_game ratio query d w = (Inr (CandidateSet ms), d', w')"
  shows "ms \<noteq> [] \<and> length ms \<le> 5 \<and> map_of (games_cache d') (lower query) = None
     \<and> (\<forall>(name, i) \<in> set ms. 7 / 10 \<le> ratio name (lower query)
            \<and> map_of (games_cache d') name = Some i)"
proof -
  obtain games d1 w1 where g: "get_app_list d w = (games, d1, w1)"
    by (cases "get_app_list d w") auto
  define matches where "matches = get_close_matches ratio (lower query) (map fst games) 5 (7 / 10)"
  from assms g have ne: "matches \<noteq> []" and p: "pair_ids games matches = Inr ms"
    and miss: "map_of games (lower query) = None" and d': "d' = d1"
    unfolding matches_def find_game_def py_int_def
    by (auto simp: Let_def map_sum_def split: if_splits option.splits sum.splits)
  from g d' have c: "games_cache d' = games" by (simp add: get_app_list_cache)
  from pair_ids_Inr [OF p] have fst: "map fst ms = matches"
    and ids: "\<forall>(n, i) \<in> set ms. map_of games n = Some i" by simp_all
  from fst ne have "ms \<noteq> []" by auto
  moreover have "length ms \<le> 5"
    using fst get_close_matches_length [of ratio "lower query" "map fst games" 5 "7 / 10"]
    unfolding matches_def by (metis length_map)
  moreover have "\<forall>(name, i) \<in> set ms. 7 / 10 \<le> ratio name (lower query)"
  proof -
    have "set matches \<subseteq> {x \<in> set (map fst games). 7 / 10 \<le> ratio x (lower query)}"
      unfolding matches_def by (rule get_close_matches_set)
    with fst show ?thesis by force
  qed
  ultimately show ?thesis using ids miss c by auto
qed

lemma find_game_single_hit:
  assumes "\<not> contains ''store.steampowered.com'' query"
    and "\<not> contains ''steamcommunity.com'' query"
    and "\<not> isdigit query"
    and "get_app_list d w = (games, d', w')" and "games \<noteq> []"
    and "map_of games (lower query) = None"
    and "filter (\<lambda>x. 7 / 10 \<le> ratio x (lower query)) (map fst games) = [k]"
  shows "\<exists>i. map_of games k = Some i
     \<and> find_game ratio query d w = (Inr (CandidateSet [(k, i)]), d', w')"
proof -
  have m: "get_close_matches ratio (lower query) (map fst games) 5 (7 / 10) = [k]"
    using assms(7) by (rule get_close_matches_single) simp
  have "k \<in> set (filter (\<lambda>x. 7 / 10 \<le> ratio x (lower query)) (map fst games))"
    by (simp only: assms(7)) simp
  then have "k \<in> fst ` set games" by auto
  then obtain i where i: "map_of games k = Some i"
    by (metis map_of_eq_None_iff not_Some_eq)
  then have "pair_ids games [k] = Inr [(k, i)]" by simp
  with assms(1-6) m i show ?thesis
    by (simp add: find_game_def)
qed

lemma ex_lower:
  "lower ''Half-Life'' = ''half-life''" "lower ''Half-Life 2'' = ''half-life 2''"
  "lower ''Portal'' = ''portal''" "lower ''Portal 2'' = ''portal 2''"
  "lower ''half-life'' = ''half-life''"
  by code_simp+

lemma ex_base_url: "base_url (downloader_init w) @ ''/ISteamApps/GetAppList/v2/'' = catalog_url"
  by (simp add: downloader_init_def catalog_url_def)

lemma ex_get_app_list_online:
  "get_app_list (downloader_init (world_of [] online)) (world_of [] online)
     = (cached_catalog, (downloader_init (world_of [] online))\<lparr>games_cache := cached_catalog\<rparr>,
        (world_of [] online)\<lparr>requests := [catalog_url]\<rparr>)"
proof -
  have w: "http (world_of [] online) = online" "requests (world_of [] online) = []"
    by (simp_all add: world_of_def)
  have d: "games_cache (downloader_init (world_of [] online)) = []"
    by (simp add: downloader_init_def)
  show ?thesis
    by (simp add: get_app_list_def ex_base_url http_get_def w d online_def catalog_reply_def
        ex_lower cached_catalog_def Let_def)
qed

lemma ex_portal_free:
  "\<not> contains ''store.steampowered.com'' ''Portal 2''"
  "\<not> contains ''steamcommunity.com'' ''Portal 2''"
  "\<not> isdigit ''Portal 2''"
  by (simp_all add: isdigit_def isdigit_char_def is_decimal_def)

lemma ex_portal_hits:
  "filter (\<lambda>x. 7 / 10 \<le> prefix_ratio x (lower ''Portal 2'')) (map fst cached_catalog) = [''portal'']"
  by (simp add: ex_lower cached_catalog_def prefix_ratio_def)

lemma ex_portal_miss: "map_of cached_catalog (lower ''Portal 2'') = None"
  by (simp add: ex_lower cached_catalog_def)

text \<open>
  C7. Whenever \<^verbatim>\<open>find_game\<close> returns a list of candidates, the list is not empty and has
  at most 5 entries, the lowercased query is not a key of the catalog, and every
  candidate is a catalog entry whose similarity to the lowercased query is at least 0.7.
  And when exactly one name of a non-empty catalog reaches 0.7 for a free-text query that
  has no exact match, the answer is the list of that one candidate, not its id.
  The similarity is the library's \<^verbatim>\<open>ratio()\<close>, a parameter of the model.
\<close>

theorem find_game_fuzzy:
  "(find_game ratio query d w = (Inr (CandidateSet ms), d', w') \<longrightarrow>
      ms \<noteq> [] \<and> length ms \<le> 5 \<and> map_of (games_cache d') (lower query) = None
      \<and> (\<forall>(name, i) \<in> set ms. 7 / 10 \<le> ratio name (lower query)
             \<and> map_of (games_cache d') name = Some i))
   \<and> (\<not> contains ''store.steampowered.com'' query \<and> \<not> contains ''steamcommunity.com'' query
        \<and> \<not> isdigit query \<and> get_app_list d w = (games, d', w') \<and> games \<noteq> []
        \<and> map_of games (lower query) = None
        \<and> filter (\<lambda>x. 7 / 10 \<le> ratio x (lower query)) (map fst games) = [k] \<longrightarrow>
      (\<exists>i. map_of games k = Some i
         \<and> find_game ratio query d w = (Inr (CandidateSet [(k, i)]), d', w')))"
  using find_game_candidates find_game_single_hit by blast

theorem find_game_fuzzy_witness:
  "find_game prefix_ratio ''Portal 2'' (downloader_init (world_of [] online)) (world_of [] online)
     = (Inr (CandidateSet [(''portal'', 400)]),
        (downloader_init (world_of [] online))\<lparr>games_cache := cached_catalog\<rparr>,
        (world_of [] online)\<lparr>requests := [catalog_url]\<rparr>)
   \<and> length [(''portal'', 400 :: int)] \<le> 5
   \<and> 7 / 10 \<le> prefix_ratio ''portal'' (lower ''Portal 2'')"
proof -
  note inst = find_game_fuzzy [of prefix_ratio "''Portal 2''"
      "downloader_init (world_of [] online)" "world_of [] online" "[(''portal'', 400)]"
      "(downloader_init (world_of [] online))\<lparr>games_cache := cached_catalog\<rparr>"
      "(world_of [] online)\<lparr>requests := [catalog_url]\<rparr>" cached_catalog "''portal''"]
  have ne: "cached_catalog \<noteq> []" by (simp add: cached_catalog_def)
  from inst ex_portal_free ex_get_app_list_online ne ex_portal_miss ex_portal_hits
  obtain i where i: "map_of cached_catalog ''portal'' = Some i"
    and r: "find_game prefix_ratio ''Portal 2'' (downloader_init (world_of [] online))
        (world_of [] online)
      = (Inr (CandidateSet [(''portal'', i)]),
         (downloader_init (world_of [] online))\<lparr>games_cache := cached_catalog\<rparr>,
         (world_of [] online)\<lparr>requests := [catalog_url]\<rparr>)"
    by blast
  from i have "i = 400" by (simp add: cached_catalog_def)
  with r inst show ?thesis by simp
qed

section \<open>The catalog cache\<close>

lemma get_app_list_fails:
  assumes "games_cache d = []" and "fetch_fails d w"
  shows "get_app_list d w
     = ([], d, w\<lparr>requests := requests w @ [base_url d @ ''/ISteamApps/GetAppList/v2/'']\<rparr>)"
  using assms
  by (auto simp: get_app_list_def fetch_fails_def http_get_def split: http_reply.splits option.splits)

lemma get_app_list_requests:
  "requests (snd (snd (get_app_list d w)))
     = (if games_cache d = [] then requests w @ [base_url d @ ''/ISteamApps/GetAppList/v2/'']
        else requests w)"
  by (auto simp: get_app_list_def http_get_def Let_def split: http_reply.splits option.splits)

lemma get_app_list_cached:
  "games_cache d \<noteq> [] \<Longrightarrow> get_app_list d w = (games_cache d, d, w)"
  by (simp add: get_app_list_def)

lemma find_game_free_text:
  assumes "\<not> contains ''store.steampowered.com'' q" and "\<not> contains ''steamcommunity.com'' q"
    and "\<not> isdigit q"
  shows "snd (find_game ratio q d w) = snd (get_app_list d w)"
  using assms
  by (cases "get_app_list d w")
     (auto simp: find_game_def Let_def split: option.splits)

lemma ex_half_life_free:
  "\<not> contains ''store.steampowered.com'' ''half-life''"
  "\<not> contains ''steamcommunity.com'' ''half-life''"
  "\<not> isdigit ''half-life''"
  by (simp_all add: isdigit_def isdigit_char_def is_decimal_def)

lemma ex_flaky_start:
  "games_cache (downloader_init (world_of [] flaky)) = []"
  "base_url (downloader_init (world_of [] flaky)) @ ''/ISteamApps/GetAppList/v2/'' = catalog_url"
  "http (world_of [] flaky) = flaky"
  "requests (world_of [] flaky) = []"
  by (simp_all add: downloader_init_def world_of_def catalog_url_def)

lemma ex_flaky_fails: "fetch_fails (downloader_init (world_of [] flaky)) (world_of [] flaky)"
  by (simp add: fetch_fails_def ex_flaky_start flaky_def)

lemma get_app_list_fetched:
  assumes "games_cache d = []"
    and "http w (length (requests w)) (base_url d @ ''/ISteamApps/GetAppList/v2/'') = Reply resp"
    and "app_list resp = Some apps"
  shows "get_app_list d w
     = (catalog_of apps, d\<lparr>games_cache := catalog_of apps\<rparr>,
        w\<lparr>requests := requests w @ [base_url d @ ''/ISteamApps/GetAppList/v2/'']\<rparr>)"
  using assms by (simp add: get_app_list_def http_get_def catalog_of_def Let_def)

lemma get_app_list_stored:
  "fst (get_app_list d w) = games_cache (fst (snd (get_app_list d w)))"
  by (simp add: get_app_list_def http_get_def Let_def split: http_reply.splits option.splits)

lemma get_close_matches_Nil:
  "get_close_matches ratio word ps 5 c = [] \<longleftrightarrow> list_all (\<lambda>x. ratio x word < c) ps"
proof -
  have sort_Nil: "sort xs = [] \<longleftrightarrow> xs = []" for xs :: "(rat \<times> string) list"
    using length_sort [of "\<lambda>x. x" xs] by (metis length_0_conv)
  have "get_close_matches ratio word ps 5 c = [] \<longleftrightarrow> filter (\<lambda>x. c \<le> ratio x word) ps = []"
    by (simp add: get_close_matches_def sort_Nil)
  also have "\<dots> \<longleftrightarrow> list_all (\<lambda>x. ratio x word < c) ps"
    by (auto simp: filter_empty_conv list_all_iff not_le)
  finally show ?thesis .
qed

lemma candidates_not_none: "map_sum id CandidateSet r \<noteq> Inr NotFound"
  by (cases r) simp_all

lemma find_game_none_iff:
  assumes "\<not> contains ''store.steampowered.com'' q" and "\<not> contains ''steamcommunity.com'' q"
    and "\<not> isdigit q"
  shows "fst (find_game ratio q d w) = Inr NotFound
     \<longleftrightarrow> no_match ratio q (games_cache (fst (snd (find_game ratio q d w))))"
proof -
  obtain games d' w' where g: "get_app_list d w = (games, d', w')"
    by (cases "get_app_list d w")
  with get_app_list_stored [of d w] have st: "games_cache d' = games" by simp
  from find_game_free_text [OF assms, of ratio d w] g
  have d': "fst (snd (find_game ratio q d w)) = d'" by simp
  have "fst (find_game ratio q d w) = Inr NotFound \<longleftrightarrow> no_match ratio q games"
    using assms g
    by (auto simp: find_game_def Let_def no_match_def get_close_matches_Nil candidates_not_none
        split: option.splits)
  with d' st show ?thesis by simp
qed

lemma find_game_fetched_key:
  assumes "\<not> contains ''store.steampowered.com'' q" and "\<not> contains ''steamcommunity.com'' q"
    and "\<not> isdigit q"
    and "games_cache d = []"
    and "http w (length (requests w)) (base_url d @ ''/ISteamApps/GetAppList/v2/'') = Reply resp"
    and "app_list resp = Some apps"
    and "map_of (catalog_of apps) (lower q) = Some i"
  shows "find_game ratio q d w
     = (Inr (ResolvedId i), d\<lparr>games_cache := catalog_of apps\<rparr>,
        w\<lparr>requests := requests w @ [base_url d @ ''/ISteamApps/GetAppList/v2/'']\<rparr>)"
proof -
  from assms(7) have "catalog_of apps \<noteq> []" by auto
  with assms show ?thesis
    by (simp add: find_game_def get_app_list_fetched Let_def)
qed

text \<open>
  C4, as the code has it, for a free-text query. If the cache is empty and the fetch
  fails, the lookup reports \<^verbatim>\<open>None\<close>, the cache stays empty and one request was made.
  While the cache is empty every lookup makes a request, so a failed fetch is tried again
  by the next lookup. Once the cache is not empty no lookup makes a request or changes
  the downloader. A lookup whose fetch succeeds stores the catalog of the reply and, when
  the lowercased query is a key of it, returns its id. And a lookup reports \<^verbatim>\<open>None\<close>
  exactly when the catalog it ends with, which is empty after a failed fetch, has
  neither the lowercased query as a key nor a name that reaches the cutoff.
\<close>

theorem catalog_fetch_retried:
  assumes "\<not> contains ''store.steampowered.com'' q" and "\<not> contains ''steamcommunity.com'' q"
    and "\<not> isdigit q"
  shows "(games_cache d = [] \<and> fetch_fails d w \<longrightarrow>
            find_game ratio q d w
              = (Inr NotFound, d,
                 w\<lparr>requests := requests w @ [base_url d @ ''/ISteamApps/GetAppList/v2/'']\<rparr>))
       \<and> (games_cache d = [] \<longrightarrow>
            requests (snd (snd (find_game ratio q d w)))
              = requests w @ [base_url d @ ''/ISteamApps/GetAppList/v2/''])
       \<and> (games_cache d \<noteq> [] \<longrightarrow> snd (find_game ratio q d w) = (d, w))
       \<and> (games_cache d = []
            \<and> http w (length (requests w)) (base_url d @ ''/ISteamApps/GetAppList/v2/'') = Reply resp
            \<and> app_list resp = Some apps \<and> map_of (catalog_of apps) (lower q) = Some i \<longrightarrow>
            find_game ratio q d w
              = (Inr (ResolvedId i), d\<lparr>games_cache := catalog_of apps\<rparr>,
                 w\<lparr>requests := requests w @ [base_url d @ ''/ISteamApps/GetAppList/v2/'']\<rparr>))
       \<and> (fst (find_game ratio q d w) = Inr NotFound
            \<longleftrightarrow> no_match ratio q (games_cache (fst (snd (find_game ratio q d w)))))"
proof (intro conjI impI)
  assume "games_cache d = [] \<and> fetch_fails d w"
  then have "get_app_list d w
     = ([], d, w\<lparr>requests := requests w @ [base_url d @ ''/ISteamApps/GetAppList/v2/'']\<rparr>)"
    by (simp add: get_app_list_fails)
  with assms show "find_game ratio q d w
      = (Inr NotFound, d,
         w\<lparr>requests := requests w @ [base_url d @ ''/ISteamApps/GetAppList/v2/'']\<rparr>)"
    by (simp add: find_game_def)
next
  assume "games_cache d = []"
  then show "requests (snd (snd (find_game ratio q d w)))
      = requests w @ [base_url d @ ''/ISteamApps/GetAppList/v2/'']"
    using find_game_free_text [OF assms, of ratio d w] get_app_list_requests [of d w] by simp
next
  assume "games_cache d \<noteq> []"
  then show "snd (find_game ratio q d w) = (d, w)"
    using find_game_free_text [OF assms, of ratio d w] by (simp add: get_app_list_cached)
next
  assume "games_cache d = []
      \<and> http w (length (requests w)) (base_url d @ ''/ISteamApps/GetAppList/v2/'') = Reply resp
      \<and> app_list resp = Some apps \<and> map_of (catalog_of apps) (lower q) = Some i"
  then show "find_game ratio q d w
      = (Inr (ResolvedId i), d\<lparr>games_cache := catalog_of apps\<rparr>,
         w\<lparr>requests := requests w @ [base_url d @ ''/ISteamApps/GetAppList/v2/'']\<rparr>)"
    using find_game_fetched_key [OF assms] by blast
next
  show "fst (find_game ratio q d w) = Inr NotFound
      \<longleftrightarrow> no_match ratio q (games_cache (fst (snd (find_game ratio q d w))))"
    by (rule find_game_none_iff [OF assms])
qed

lemma ex_catalog_of: "catalog_of catalog_apps = cached_catalog"
  by (simp add: catalog_of_def catalog_apps_def ex_lower cached_catalog_def)

lemma ex_flaky_second:
  "http ((world_of [] flaky)\<lparr>requests := [catalog_url]\<rparr>)
      (length (requests ((world_of [] flaky)\<lparr>requests := [catalog_url]\<rparr>))) catalog_url
     = Reply \<lparr>status_code = 200, app_list = Some catalog_apps, chunks = [], stream_ok = True,
         store_data = NoDetails\<rparr>"
  by (simp add: ex_flaky_start flaky_def catalog_reply_def catalog_apps_def)

lemma ex_half_life_key: "map_of cached_catalog (lower ''half-life'') = Some 70"
  by (simp add: ex_lower cached_catalog_def)

theorem catalog_fetch_retried_witness:
  "find_game prefix_ratio ''half-life'' (downloader_init (world_of [] flaky)) (world_of [] flaky)
     = (Inr NotFound, downloader_init (world_of [] flaky),
        (world_of [] flaky)\<lparr>requests := [catalog_url]\<rparr>)
   \<and> requests (snd (snd (find_game prefix_ratio ''half-life''
        (downloader_init (world_of [] flaky)) ((world_of [] flaky)\<lparr>requests := [catalog_url]\<rparr>))))
     = [catalog_url, catalog_url]
   \<and> snd (find_game prefix_ratio ''half-life''
        ((downloader_init (world_of [] flaky))\<lparr>games_cache := cached_catalog\<rparr>) (world_of [] flaky))
     = ((downloader_init (world_of [] flaky))\<lparr>games_cache := cached_catalog\<rparr>, world_of [] flaky)
   \<and> find_game prefix_ratio ''half-life'' (downloader_init (world_of [] flaky))
        ((world_of [] flaky)\<lparr>requests := [catalog_url]\<rparr>)
     = (Inr (ResolvedId 70), (downloader_init (world_of [] flaky))\<lparr>games_cache := cached_catalog\<rparr>,
        (world_of [] flaky)\<lparr>requests := [catalog_url, catalog_url]\<rparr>)
   \<and> fst (find_game prefix_ratio ''half-life''
        ((downloader_init (world_of [] flaky))\<lparr>games_cache := cached_catalog\<rparr>) (world_of [] flaky))
     \<noteq> Inr NotFound"
proof -
  define d0 where "d0 = downloader_init (world_of [] flaky)"
  define w0 where "w0 = world_of [] flaky"
  define w1 where "w1 = (world_of [] flaky)\<lparr>requests := [catalog_url]\<rparr>"
  define dc where "dc = (downloader_init (world_of [] flaky))\<lparr>games_cache := cached_catalog\<rparr>"
  define r where "r = \<lparr>status_code = 200, app_list = Some catalog_apps, chunks = [],
    stream_ok = True, store_data = NoDetails\<rparr>"
  define url where "url = base_url d0 @ ''/ISteamApps/GetAppList/v2/''"
  have url: "url = catalog_url" by (simp add: url_def d0_def ex_flaky_start)
  have e0: "games_cache d0 = []" "fetch_fails d0 w0" "requests w0 = []"
    by (simp_all add: d0_def w0_def ex_flaky_start ex_flaky_fails)
  have e1: "http w1 (length (requests w1)) url = Reply r" "requests w1 = [catalog_url]"
    "app_list r = Some catalog_apps"
    by (simp_all add: w1_def url r_def ex_flaky_start flaky_def catalog_reply_def catalog_apps_def)
  have e2: "map_of (catalog_of catalog_apps) (lower ''half-life'') = Some 70"
    by (simp add: ex_catalog_of ex_half_life_key)
  have ec: "games_cache dc \<noteq> []" "games_cache dc = cached_catalog"
    by (simp_all add: dc_def cached_catalog_def)
  have nm: "\<not> no_match prefix_ratio ''half-life'' cached_catalog"
    by (simp add: no_match_def ex_half_life_key)
  note i0 = catalog_fetch_retried [OF ex_half_life_free, where d = d0 and w = w0
      and ratio = prefix_ratio and resp = r and apps = catalog_apps and i = 70, folded url_def]
  note i1 = catalog_fetch_retried [OF ex_half_life_free, where d = d0 and w = w1
      and ratio = prefix_ratio and resp = r and apps = catalog_apps and i = 70, folded url_def]
  note ic = catalog_fetch_retried [OF ex_half_life_free, where d = dc and w = w0
      and ratio = prefix_ratio and resp = r and apps = catalog_apps and i = 70]
  from i0 e0 have a: "find_game prefix_ratio ''half-life'' d0 w0
      = (Inr NotFound, d0, w0\<lparr>requests := requests w0 @ [url]\<rparr>)"
    by blast
  from i1 e0(1) have b: "requests (snd (snd (find_game prefix_ratio ''half-life'' d0 w1)))
      = requests w1 @ [url]"
    by blast
  from ic ec(1) have c: "snd (find_game prefix_ratio ''half-life'' dc w0) = (dc, w0)"
    by blast
  from i1 e0(1) e1(1,3) e2 have d: "find_game prefix_ratio ''half-life'' d0 w1
      = (Inr (ResolvedId 70), d0\<lparr>games_cache := catalog_of catalog_apps\<rparr>,
         w1\<lparr>requests := requests w1 @ [url]\<rparr>)"
    by blast
  from ic have "fst (find_game prefix_ratio ''half-life'' dc w0) = Inr NotFound
      \<longleftrightarrow> no_match prefix_ratio ''half-life'' (games_cache (fst (snd (find_game prefix_ratio ''half-life'' dc w0))))"
    by blast
  with c ec(2) nm have e: "fst (find_game prefix_ratio ''half-life'' dc w0) \<noteq> Inr NotFound"
    by simp
  from a b c d e show ?thesis
    unfolding d0_def w0_def w1_def dc_def
    by (simp add: url ex_catalog_of ex_flaky_start)
qed

text \<open>
  C4 as stated fails: after a failed fetch the next lookup of the same name fetches the
  catalog again and, the network being back, resolves the name.
\<close>

theorem catalog_fetch_once_counterexample:
  "(case find_game prefix_ratio ''half-life'' (downloader_init (world_of [] flaky)) (world_of [] flaky) of
      (r1, d1, w1) \<Rightarrow>
        (case find_game prefix_ratio ''half-life'' d1 w1 of
           (r2, d2, w2) \<Rightarrow>
             r1 = Inr NotFound \<and> games_cache d1 = [] \<and> r2 = Inr (ResolvedId 70)
             \<and> requests w2 = [catalog_url, catalog_url]))"
proof -
  have first: "find_game prefix_ratio ''half-life'' (downloader_init (world_of [] flaky)) (world_of [] flaky)
     = (Inr NotFound, downloader_init (world_of [] flaky),
        (world_of [] flaky)\<lparr>requests := [catalog_url]\<rparr>)"
    by (simp add: find_game_def ex_half_life_free get_app_list_def http_get_def ex_flaky_start
        flaky_def del: contains.simps)
  have second: "find_game prefix_ratio ''half-life'' (downloader_init (world_of [] flaky))
        ((world_of [] flaky)\<lparr>requests := [catalog_url]\<rparr>)
     = (Inr (ResolvedId 70),
        (downloader_init (world_of [] flaky))\<lparr>games_cache := cached_catalog\<rparr>,
        (world_of [] flaky)\<lparr>requests := [catalog_url, catalog_url]\<rparr>)"
    by (simp add: find_game_def ex_half_life_free get_app_list_def http_get_def ex_flaky_start
        flaky_def catalog_reply_def ex_lower cached_catalog_def Let_def del: contains.simps)
  show ?thesis
    by (simp add: first second ex_flaky_start)
qed

section \<open>Launching SteamTools\<close>

lemma ex_probe_empty: "find_steamtools_exe (world_of [] offline) = None"
  by (simp add: find_steamtools_exe_def world_of_def common_paths_def path_exists_def node_at_def)

lemma ex_probe_found: "find_steamtools_exe (world_of steamtools_fs offline) = Some steamtools_path"
  by (simp add: find_steamtools_exe_def world_of_def common_paths_def path_exists_def node_at_def
      steamtools_fs_def rglob_def basename_def steamtools_path_def)

text \<open>
  C5, as the code has it. \<^verbatim>\<open>launch_steamtools\<close> leaves a stored path as it is. When none
  is stored it probes the common paths again and stores what the probe finds: the launch
  is skipped with the warning, and nothing changes, when the probe finds nothing; when it
  finds an executable that exists and can be spawned, that executable is launched.
\<close>

theorem launch_steamtools_probe:
  "(steamtools_exe d \<noteq> None \<longrightarrow> fst (snd (snd (launch_steamtools cb d w))) = d)
   \<and> (steamtools_exe d = None \<longrightarrow>
        fst (snd (snd (launch_steamtools cb d w))) = d\<lparr>steamtools_exe := find_steamtools_exe w\<rparr>)
   \<and> (steamtools_exe d = None \<and> find_steamtools_exe w = None \<longrightarrow>
        launch_steamtools cb d w = (False, emit cb SteamToolsNotFound, d, w))
   \<and> (steamtools_exe d = None \<and> find_steamtools_exe w = Some exe \<and> path_exists (fs w) exe
        \<and> can_spawn w exe \<longrightarrow>
        launch_steamtools cb d w
          = (True, emit cb SteamToolsLaunched, d\<lparr>steamtools_exe := Some exe\<rparr>,
             w\<lparr>spawned := spawned w @ [exe]\<rparr>))"
  by (auto simp: launch_steamtools_def Let_def split: option.splits)

theorem launch_steamtools_probe_witness:
  "launch_steamtools True (downloader_init (world_of [] offline)) (world_of [] offline)
     = (False, [SteamToolsNotFound], downloader_init (world_of [] offline), world_of [] offline)
   \<and> launch_steamtools True (downloader_init (world_of [] offline)) (world_of steamtools_fs offline)
     = (True, [SteamToolsLaunched],
        (downloader_init (world_of [] offline))\<lparr>steamtools_exe := Some steamtools_path\<rparr>,
        (world_of steamtools_fs offline)\<lparr>spawned := [steamtools_path]\<rparr>)
   \<and> fst (snd (snd (launch_steamtools True (downloader_init (world_of steamtools_fs offline))
        (world_of [] offline)))) = downloader_init (world_of steamtools_fs offline)"
proof -
  have none: "steamtools_exe (downloader_init (world_of [] offline)) = None"
    by (simp add: downloader_init_def ex_probe_empty)
  have some: "steamtools_exe (downloader_init (world_of steamtools_fs offline)) \<noteq> None"
    by (simp add: downloader_init_def ex_probe_found)
  have ex: "path_exists (fs (world_of steamtools_fs offline)) steamtools_path"
    by (simp add: world_of_def path_exists_def node_at_def steamtools_fs_def steamtools_path_def)
  have sp: "can_spawn (world_of steamtools_fs offline) steamtools_path"
    "spawned (world_of steamtools_fs offline) = []"
    by (simp_all add: world_of_def)
  show ?thesis
    using launch_steamtools_probe [of "downloader_init (world_of [] offline)" True
        "world_of [] offline" steamtools_path]
      launch_steamtools_probe [of "downloader_init (world_of [] offline)" True
        "world_of steamtools_fs offline" steamtools_path]
      launch_steamtools_probe [of "downloader_init (world_of steamtools_fs offline)" True
        "world_of [] offline" steamtools_path]
    by (simp add: none some ex sp ex_probe_empty ex_probe_found emit_def)
qed

text \<open>
  C5 as stated fails: a downloader created while SteamTools was absent, asked to launch
  after SteamTools was installed, finds the executable, stores its path and launches it.
\<close>

theorem launch_steamtools_reprobe_counterexample:
  "steamtools_exe (downloader_init (world_of [] offline)) = None
   \<and> fst (launch_steamtools True (downloader_init (world_of [] offline))
        (world_of steamtools_fs offline)) = True
   \<and> steamtools_exe (fst (snd (snd (launch_steamtools True (downloader_init (world_of [] offline))
        (world_of steamtools_fs offline))))) = Some steamtools_path
   \<and> spawned (snd (snd (snd (launch_steamtools True (downloader_init (world_of [] offline))
        (world_of steamtools_fs offline))))) = [steamtools_path]"
proof -
  have none: "steamtools_exe (downloader_init (world_of [] offline)) = None"
    by (simp add: downloader_init_def ex_probe_empty)
  have ex: "path_exists (fs (world_of steamtools_fs offline)) steamtools_path"
    by (simp add: world_of_def path_exists_def node_at_def steamtools_fs_def steamtools_path_def)
  have sp: "can_spawn (world_of steamtools_fs offline) steamtools_path"
    "spawned (world_of steamtools_fs offline) = []"
    by (simp_all add: world_of_def)
  show ?thesis
    by (simp add: launch_steamtools_def none ex sp ex_probe_found)
qed

section \<open>One run at a time\<close>

lemma start_download_busy: "is_processing g \<Longrightarrow> start_download g = g"
  by (simp add: start_download_def)

lemma press_busy: "is_processing g \<Longrightarrow> step ratio (g, w) Press = (g, w)"
  by (simp add: start_download_busy)

lemma token_logged [simp]: "sum_list (map token (logged lg)) = 0"
  by (induction lg) (simp_all add: logged_def)

lemma token_fatal [simp]: "sum_list (map token (fatal_error e)) = 0"
  by (simp add: fatal_error_def)

text \<open>A search thread hands its run on once.\<close>

lemma search_tokens:
  "sum_list (map token (fst (initial_search_thread ratio q d w))) = 1"
  by (simp add: initial_search_thread_def split: prod.splits sum.splits find_result.splits)

text \<open>A download thread ends its run once, and twice when the download fails.\<close>

lemma download_tokens:
  "sum_list (map token (fst (download_thread app_id d w)))
     = (if download_fails app_id d w then 2 else 1)"
  by (simp add: download_thread_def download_fails_def Let_def
      split: prod.splits sum.splits)

lemma download_failed_twice:
  assumes "download_fails app_id d w"
  shows "\<exists>cbs. fst (download_thread app_id d w)
     = cbs @ [MessageBox DownloadFailedBox, FinishProcessing, FinishProcessing]"
  using assms
  by (auto simp: download_thread_def download_fails_def Let_def split: prod.splits sum.splits)

lemma select_one_run:
  "tokens g = 0 \<Longrightarrow> is_processing g \<Longrightarrow> one_run (show_match_selection ms cl g)"
proof (induction ms cl g rule: show_match_selection.induct)
  case (4 matches selection rest g)
  then show ?case
    by (auto simp: one_run_def tokens_def finish_processing_def download_thread_start_def
        simp del: sum_list_eq_0_iff split: option.splits sum.splits)
qed (simp_all add: one_run_def tokens_def finish_processing_def del: sum_list_eq_0_iff)

lemma callback_one_run:
  "tokens g + token c \<le> (if is_processing g then 1 else 0) \<Longrightarrow> one_run (run_callback a c g)"
proof (induction a c g rule: run_callback.induct)
  case (4 a matches g)
  then have "tokens g = 0" "is_processing g" by (auto split: if_splits)
  then show ?case by (simp add: select_one_run)
qed (auto simp: one_run_def tokens_def finish_processing_def download_thread_start_def
      update_status_def log_gui_def simp del: sum_list_eq_0_iff split: if_splits)

lemma start_one_run: "one_run g \<Longrightarrow> one_run (start_download g)"
  by (auto simp: one_run_def tokens_def start_download_def Let_def split: if_splits)

lemma step_one_run:
  assumes "one_run g" and "\<not> failing_step (g, w) act"
  shows "one_run (fst (step ratio (g, w) act))"
proof (cases act)
  case (Edit s)
  with assms show ?thesis by (simp add: one_run_def tokens_def)
next
  case Press
  with assms show ?thesis by (simp add: start_one_run)
next
  case (Work k)
  show ?thesis
  proof (cases "k < length (threads g)")
    case False
    with Work assms show ?thesis by simp
  next
    case True
    then have len: "length (take k (threads g) @ drop (Suc k) (threads g)) = length (threads g) - 1"
      by simp
    from True assms(1) have flag: "is_processing g" and q: "sum_list (map token (after_queue g)) = 0"
      and one: "length (threads g) = 1"
      by (auto simp: one_run_def tokens_def simp del: sum_list_eq_0_iff split: if_splits)
    define g1 where "g1 = g\<lparr>threads := take k (threads g) @ drop (Suc k) (threads g)\<rparr>"
    from len one have "length (threads g1) = 0"
      by (simp add: g1_def del: length_append length_take length_drop)
    then have g1_threads: "threads g1 = []" by simp
    from q flag have g1_rest: "sum_list (map token (after_queue g1)) = 0"
      "is_processing g1" "downloader g1 = downloader g"
      by (simp_all add: g1_def del: sum_list_eq_0_iff)
    note g1 = g1_threads g1_rest
    have run: "one_run (fst (run_thread ratio (threads g ! k) (g1, w)))"
    proof (cases "threads g ! k")
      case (SearchThread query)
      obtain cbs d' w' where r: "initial_search_thread ratio query (downloader g) w = (cbs, d', w')"
        by (cases "initial_search_thread ratio query (downloader g) w")
      with search_tokens [of ratio query "downloader g" w] have "sum_list (map token cbs) = 1"
        by simp
      with SearchThread r g1 show ?thesis
        by (simp add: run_thread_def one_run_def tokens_def)
    next
      case (DownloadThread app_id)
      with assms(2) Work True have nf: "\<not> download_fails app_id (downloader g) w"
        by (simp add: failing_step_def)
      obtain cbs d' w' where r: "download_thread app_id (downloader g) w = (cbs, d', w')"
        by (cases "download_thread app_id (downloader g) w")
      with download_tokens [of app_id "downloader g" w] nf have "sum_list (map token cbs) = 1"
        by simp
      with DownloadThread r g1 show ?thesis
        by (simp add: run_thread_def one_run_def tokens_def)
    qed
    from Work True have "step ratio (g, w) act = run_thread ratio (threads g ! k) (g1, w)"
      by (simp add: g1_def)
    with run show ?thesis by simp
  qed
next
  case (Next a)
  show ?thesis
  proof (cases "after_queue g")
    case Nil
    with Next assms show ?thesis by simp
  next
    case (Cons c cs)
    with assms(1) have "tokens (g\<lparr>after_queue := cs\<rparr>) + token c
        \<le> (if is_processing (g\<lparr>after_queue := cs\<rparr>) then 1 else 0)"
      by (simp add: one_run_def tokens_def)
    from callback_one_run [OF this] Next Cons show ?thesis by simp
  qed
qed

lemma init_one_run: "one_run (installer_init w)"
  by (simp add: one_run_def tokens_def installer_init_def Let_def)

lemma one_run_threads: "one_run g \<Longrightarrow> length (threads g) \<le> 1"
  by (auto simp: one_run_def tokens_def split: if_splits)

text \<open>
  What the processing flag achieves. In every order of the steps, as long as no download
  fails, at most one thing carries a run on and nothing does while the flag is clear: at
  most one worker thread is alive, and a request made in the meantime changes nothing.
\<close>

lemma one_run_kept:
  "one_run (fst gw) \<Longrightarrow> no_failed_download ratio gw acts
     \<Longrightarrow> one_run (fst (foldl (step ratio) gw acts))"
proof (induction acts arbitrary: gw)
  case Nil
  then show ?case by simp
next
  case (Cons act acts)
  obtain g w where gw: "gw = (g, w)" by (cases gw)
  with Cons.prems have "one_run (fst (step ratio gw act))"
    using step_one_run [of g w act ratio] by simp
  with Cons.prems Cons.IH [of "step ratio gw act"] show ?case by simp
qed

lemma ex_portal_run:
  "no_failed_download prefix_ratio (installer_init catalog_world, catalog_world) portal_run"
  "threads (fst (foldl (step prefix_ratio) (installer_init catalog_world, catalog_world) portal_run))
     = [DownloadThread 400]"
  by code_simp+

lemma one_run_kept_example:
  "one_run (fst (foldl (step prefix_ratio) (installer_init catalog_world, catalog_world) portal_run))"
  using one_run_kept [OF _ ex_portal_run(1)] init_one_run [of catalog_world] by simp


section \<open>Directories made on the way\<close>

lemma node_at_append_new:
  "q \<noteq> [] \<Longrightarrow> node_at f q = None \<Longrightarrow>
     node_at (f @ [(q, n)]) p = (if p = q then Some n else node_at f p)"
  by (auto simp: node_at_def map_add_def split: option.splits)

lemma mkdirs_frame:
  assumes "mkdirs pre cs f = Inr f'"
  shows "node_at f' p = node_at f p
     \<or> (node_at f p = None \<and> node_at f' p = Some Dir \<and> strict_prefix pre p \<and> prefix p (pre @ cs))"
  using assms
proof (induction cs arbitrary: pre f)
  case Nil
  then show ?case by simp
next
  case (Cons c cs)
  show ?case
  proof (cases "node_at f (pre @ [c])")
    case None
    let ?g = "f @ [(pre @ [c], Dir)]"
    from None Cons.prems have m: "mkdirs (pre @ [c]) cs ?g = Inr f'" by simp
    have g: "node_at ?g p = (if p = pre @ [c] then Some Dir else node_at f p)"
      using None by (simp add: node_at_append_new)
    from Cons.IH [OF m] show ?thesis
    proof
      assume same: "node_at f' p = node_at ?g p"
      show ?thesis
      proof (cases "p = pre @ [c]")
        case True
        with same g None show ?thesis by (auto simp: strict_prefix_def)
      next
        case False
        with same g show ?thesis by simp
      qed
    next
      assume new: "node_at ?g p = None \<and> node_at f' p = Some Dir
        \<and> strict_prefix (pre @ [c]) p \<and> prefix p ((pre @ [c]) @ cs)"
      then have "p \<noteq> pre @ [c]" by (auto simp: strict_prefix_def)
      with new g have "node_at f p = None" by simp
      moreover from new have "strict_prefix pre p"
        by (metis prefix_order.dual_order.strict_trans strict_prefixI')
      ultimately show ?thesis using new by simp
    qed
  next
    case (Some n)
    show ?thesis
    proof (cases n)
      case Dir
      with Some Cons.prems have m: "mkdirs (pre @ [c]) cs f = Inr f'" by simp
      from Cons.IH [OF m] show ?thesis
      proof
        assume "node_at f' p = node_at f p"
        then show ?thesis by simp
      next
        assume new: "node_at f p = None \<and> node_at f' p = Some Dir
          \<and> strict_prefix (pre @ [c]) p \<and> prefix p ((pre @ [c]) @ cs)"
        then have "strict_prefix pre p"
          by (metis prefix_order.dual_order.strict_trans strict_prefixI')
        with new show ?thesis by simp
      qed
    next
      case (File b wr)
      with Some Cons.prems show ?thesis by simp
    qed
  qed
qed

lemma mkdir_parents_frame:
  assumes "mkdir_parents dir f = Inr f'"
  shows "node_at f' p = node_at f p
     \<or> (node_at f p = None \<and> node_at f' p = Some Dir \<and> prefix p dir)"
  using mkdirs_frame [of "[]" dir f f' p] assms by (auto simp: mkdir_parents_def)

lemma mkdir_parents_kept:
  "mkdir_parents dir f = Inr f' \<Longrightarrow> node_at f p = Some n \<Longrightarrow> node_at f' p = Some n"
  using mkdir_parents_frame [of dir f f' p] by auto

lemma mkdirs_creates:
  assumes "mkdirs pre cs f = Inr f'" and "node_at f pre = Some Dir"
  shows "node_at f' (pre @ cs) = Some Dir"
  using assms
proof (induction cs arbitrary: pre f)
  case Nil
  then show ?case by simp
next
  case (Cons c cs)
  show ?case
  proof (cases "node_at f (pre @ [c])")
    case None
    let ?g = "f @ [(pre @ [c], Dir)]"
    from None Cons.prems have m: "mkdirs (pre @ [c]) cs ?g = Inr f'" by simp
    have "node_at ?g (pre @ [c]) = Some Dir" using None by (simp add: node_at_append_new)
    from Cons.IH [OF m this] show ?thesis by simp
  next
    case (Some n)
    with Cons.prems have n: "n = Dir" by (cases n) simp_all
    with Some Cons.prems have m: "mkdirs (pre @ [c]) cs f = Inr f'" by simp
    from Cons.IH [OF m] Some n show ?thesis by simp
  qed
qed

lemma mkdir_parents_creates: "mkdir_parents dir f = Inr f' \<Longrightarrow> node_at f' dir = Some Dir"
  using mkdirs_creates [of "[]" dir f f'] by (simp add: mkdir_parents_def node_at_def)

lemma ex_str_220: "str_int 220 = ''220''"
  by code_simp

lemma ex_archive_url:
  "r2_base_url (downloader_init w) @ ''/'' @ str_int 220 @ ''.zip'' = archive_url"
  by (simp add: downloader_init_def ex_str_220 archive_url_def)

lemma ex_mkdir_downloads: "mkdir_parents [''downloads''] [] = Inr [([''downloads''], Dir)]"
  by (simp add: mkdir_parents_def node_at_def)

section \<open>An archive that is not there\<close>

text \<open>
  C1, as the code has it. When the request for the archive is answered with status 404,
  \<^verbatim>\<open>download_appid_zip\<close> returns \<^verbatim>\<open>False\<close>, the value it returns for every failure; only
  the message passed to the callback (if there is one) says that no data was found. The
  request is recorded. The destination directory was made before the request: it exists
  afterwards, and every other path holds what it held before, except that directories
  missing on the way to the destination have been created. No file is written.
\<close>

theorem download_404:
  assumes "mkdir_parents output_dir (fs w) = Inr f0"
    and "http w (length (requests w)) (r2_base_url d @ ''/'' @ str_int app_id @ ''.zip'') = Reply resp"
    and "status_code resp = 404"
  shows "download_appid_zip app_id output_dir cb d w
       = (Inr False, emit cb (Downloading app_id) @ emit cb (NoDataFound app_id),
          w\<lparr>fs := f0, requests := requests w @ [r2_base_url d @ ''/'' @ str_int app_id @ ''.zip'']\<rparr>)
     \<and> node_at f0 output_dir = Some Dir
     \<and> (\<forall>p. node_at f0 p = node_at (fs w) p
            \<or> (node_at (fs w) p = None \<and> node_at f0 p = Some Dir \<and> prefix p output_dir))"
proof -
  have "download_appid_zip app_id output_dir cb d w
       = (Inr False, emit cb (Downloading app_id) @ emit cb (NoDataFound app_id),
          w\<lparr>fs := f0, requests := requests w @ [r2_base_url d @ ''/'' @ str_int app_id @ ''.zip'']\<rparr>)"
    using assms by (simp add: download_appid_zip_def http_get_def Let_def)
  moreover have "node_at f0 output_dir = Some Dir"
    using assms(1) by (rule mkdir_parents_creates)
  moreover have "\<forall>p. node_at f0 p = node_at (fs w) p
            \<or> (node_at (fs w) p = None \<and> node_at f0 p = Some Dir \<and> prefix p output_dir)"
    using mkdir_parents_frame [OF assms(1)] by blast
  ultimately show ?thesis by blast
qed

theorem download_404_witness:
  "download_appid_zip 220 [''downloads''] True (downloader_init (world_of [] no_archive))
       (world_of [] no_archive)
     = (Inr False, [Downloading 220, NoDataFound 220],
        (world_of [] no_archive)\<lparr>fs := [([''downloads''], Dir)], requests := [archive_url]\<rparr>)
   \<and> node_at [([''downloads''], Dir)] [''downloads'', ''220.zip''] = None"
proof -
  have w: "fs (world_of [] no_archive) = []" "requests (world_of [] no_archive) = []"
    "http (world_of [] no_archive) = no_archive"
    by (simp_all add: world_of_def)
  have m: "mkdir_parents [''downloads''] (fs (world_of [] no_archive)) = Inr [([''downloads''], Dir)]"
    by (simp add: w ex_mkdir_downloads)
  have h: "http (world_of [] no_archive) (length (requests (world_of [] no_archive)))
      (r2_base_url (downloader_init (world_of [] no_archive)) @ ''/'' @ str_int 220 @ ''.zip'')
     = Reply \<lparr>status_code = 404, app_list = None, chunks = [], stream_ok = True, store_data = NoDetails\<rparr>"
    by (simp add: w no_archive_def not_found_reply_def)
  have s: "status_code \<lparr>status_code = 404, app_list = None, chunks = [], stream_ok = True, store_data = NoDetails\<rparr> = 404"
    by simp
  from download_404 [OF m h s, of True, unfolded ex_archive_url] show ?thesis
    by (simp add: emit_def w node_at_def)
qed

text \<open>
  C1 as stated fails: without a callback the 404 and a connection that cannot be made
  give the same value and the same (empty) log, so there is no distinct outcome; and
  the 404 run has created the destination directory, which did not exist.
\<close>

theorem download_404_counterexample:
  "fst (download_appid_zip 220 [''downloads''] False (downloader_init (world_of [] no_archive))
          (world_of [] no_archive)) = Inr False
   \<and> fst (download_appid_zip 220 [''downloads''] False (downloader_init (world_of [] offline))
          (world_of [] offline)) = Inr False
   \<and> fst (snd (download_appid_zip 220 [''downloads''] False (downloader_init (world_of [] no_archive))
          (world_of [] no_archive))) = []
   \<and> fst (snd (download_appid_zip 220 [''downloads''] False (downloader_init (world_of [] offline))
          (world_of [] offline))) = []
   \<and> fs (world_of [] no_archive) = []
   \<and> fs (snd (snd (download_appid_zip 220 [''downloads''] False
          (downloader_init (world_of [] no_archive)) (world_of [] no_archive))))
       = [([''downloads''], Dir)]"
proof -
  have w: "fs (world_of [] net) = []" "requests (world_of [] net) = []"
    "http (world_of [] net) = net" for net
    by (simp_all add: world_of_def)
  show ?thesis
    by (simp add: download_appid_zip_def w ex_mkdir_downloads http_get_def no_archive_def
        not_found_reply_def offline_def emit_def Let_def)
qed

section \<open>Copying into the Steam folder\<close>

lemma node_at_update:
  "q \<noteq> [] \<Longrightarrow> node_at (AList.update q n f) p = (if p = q then Some n else node_at f p)"
  by (simp add: node_at_def update_conv')

lemma node_at_rmtree:
  assumes "rmtree src f = Inr f'" and "\<not> prefix src p"
  shows "node_at f' p = node_at f p"
proof -
  from assms(1) have f': "f' = filter (\<lambda>(q, n). \<not> prefix src q) f"
    by (auto simp: rmtree_def split: if_splits)
  have "map_of (filter (\<lambda>(q, n). \<not> prefix src q) f) p = map_of f p"
    using assms(2) by (induction f) auto
  then show ?thesis by (simp add: f' node_at_def)
qed

lemma copy2_Inr:
  assumes "copy2 src dst0 f = Inr f'"
  shows "\<exists>dst bytes wr. (dst = dst0 \<or> dst = dst0 @ [basename src]) \<and> dst \<noteq> []
     \<and> node_at f src = Some (File bytes wr) \<and> f' = AList.update dst (File bytes wr) f"
proof -
  define dst where "dst = (if node_at f dst0 = Some Dir then dst0 @ [basename src] else dst0)"
  have ne: "dst \<noteq> []" by (auto simp: dst_def node_at_def)
  have alt: "dst = dst0 \<or> dst = dst0 @ [basename src]" by (simp add: dst_def)
  from assms obtain bytes wr where "node_at f src = Some (File bytes wr)"
    and "f' = AList.update dst (File bytes wr) f"
    unfolding copy2_def dst_def [symmetric] Let_def
    by (auto split: if_splits option.splits node.splits)
  with ne alt show ?thesis by blast
qed

lemma copy2_frame:
  assumes "copy2 src dst0 f = Inr f'" and "q \<noteq> dst0" and "q \<noteq> dst0 @ [basename src]"
  shows "node_at f' q = node_at f q"
proof -
  from copy2_Inr [OF assms(1)] obtain dst bytes wr
    where "dst = dst0 \<or> dst = dst0 @ [basename src]" "dst \<noteq> []"
      "f' = AList.update dst (File bytes wr) f" by blast
  with assms(2,3) show ?thesis by (auto simp: node_at_update)
qed

lemma copy2_ok:
  assumes "node_at f src = Some (File bytes wr)" and "src \<noteq> dst0"
    and "(node_at f dst0 = None \<and> node_at f (butlast dst0) = Some Dir)
       \<or> (\<exists>b. node_at f dst0 = Some (File b True))"
  shows "copy2 src dst0 f = Inr (AList.update dst0 (File bytes wr) f)"
  using assms by (auto simp: copy2_def)

lemma copy_all_Cons:
  "copy_all folder (q # qs) cb (f, lg) =
     (case copy2 q (folder @ [basename q]) f of
        Inr f' \<Rightarrow> copy_all folder qs cb (f', lg)
      | Inl e \<Rightarrow> copy_all folder qs cb (f, lg @ emit cb (CopyFailed e)))"
  by simp

lemma copy_all_frame:
  assumes "\<forall>q \<in> set qs. t \<noteq> folder @ [basename q] \<and> t \<noteq> folder @ [basename q, basename q]"
  shows "node_at (fst (copy_all folder qs cb (f, lg))) t = node_at f t"
  using assms
proof (induction qs arbitrary: f lg)
  case Nil
  then show ?case by simp
next
  case (Cons q qs)
  from Cons.prems have t: "t \<noteq> folder @ [basename q]" "t \<noteq> (folder @ [basename q]) @ [basename q]"
    and rest: "\<forall>q \<in> set qs. t \<noteq> folder @ [basename q] \<and> t \<noteq> folder @ [basename q, basename q]"
    by simp_all
  show ?case
  proof (cases "copy2 q (folder @ [basename q]) f")
    case (Inl e)
    with Cons.IH [OF rest] show ?thesis by simp
  next
    case (Inr f')
    from copy2_frame [OF Inr t] have "node_at f' t = node_at f t" .
    with Inr Cons.IH [OF rest, of f' lg] show ?thesis by simp
  qed
qed

lemma not_under:
  assumes "\<not> prefix folder p"
  shows "p \<noteq> folder @ xs"
  using assms by auto

lemma copy_all_done_kept:
  assumes "node_at f (folder @ [basename p]) = Some (File c wr)"
    and "node_at f p = Some (File c wr)"
    and "\<forall>q \<in> set qs. basename q = basename p \<longrightarrow> q = p"
    and "\<not> prefix folder p"
  shows "node_at (fst (copy_all folder qs cb (f, lg))) (folder @ [basename p]) = Some (File c wr)"
  using assms(1-3)
proof (induction qs arbitrary: f lg)
  case Nil
  then show ?case by simp
next
  case (Cons q qs)
  let ?dest = "folder @ [basename p]"
  from Cons.prems(3) have rest: "\<forall>q \<in> set qs. basename q = basename p \<longrightarrow> q = p"
    and q: "basename q = basename p \<longrightarrow> q = p" by simp_all
  show ?case
  proof (cases "copy2 q (folder @ [basename q]) f")
    case (Inl e)
    with Cons.IH [OF Cons.prems(1,2) rest] show ?thesis by simp
  next
    case (Inr f')
    from copy2_Inr [OF Inr] obtain dst bytes w'
      where dst: "dst = folder @ [basename q] \<or> dst = (folder @ [basename q]) @ [basename q]"
        and ne: "dst \<noteq> []" and src: "node_at f q = Some (File bytes w')"
        and f': "f' = AList.update dst (File bytes w') f" by blast
    have pd: "p \<noteq> dst" using dst assms(4) by auto
    then have p': "node_at f' p = Some (File c wr)"
      using Cons.prems(2) ne by (simp add: f' node_at_update)
    have d': "node_at f' ?dest = Some (File c wr)"
    proof (cases "q = p")
      case True
      with src Cons.prems(2) have "bytes = c" "w' = wr" by simp_all
      with Cons.prems(1) ne show ?thesis by (simp add: f' node_at_update)
    next
      case False
      with q have "basename q \<noteq> basename p" by blast
      with dst have "?dest \<noteq> dst" by auto
      with Cons.prems(1) ne show ?thesis by (simp add: f' node_at_update)
    qed
    from Inr Cons.IH [OF d' p' rest, of lg] show ?thesis by simp
  qed
qed

lemma copy_all_independent:
  assumes "p \<in> set qs"
    and "node_at f p = Some (File c wr)"
    and "node_at f folder = Some Dir"
    and "node_at f (folder @ [basename p]) = None
       \<or> (\<exists>b. node_at f (folder @ [basename p]) = Some (File b True))"
    and "\<forall>q \<in> set qs. basename q = basename p \<longrightarrow> q = p"
    and "\<not> prefix folder p"
  shows "node_at (fst (copy_all folder qs cb (f, lg))) (folder @ [basename p]) = Some (File c wr)"
  using assms(1-5)
proof (induction qs arbitrary: f lg)
  case Nil
  then show ?case by simp
next
  case (Cons q qs)
  let ?dest = "folder @ [basename p]"
  from Cons.prems(5) have rest: "\<forall>q \<in> set qs. basename q = basename p \<longrightarrow> q = p"
    and q: "basename q = basename p \<longrightarrow> q = p" by simp_all
  show ?case
  proof (cases "q = p")
    case True
    have "p \<noteq> ?dest" by (rule not_under [OF assms(6)])
    moreover have "butlast ?dest = folder" by simp
    ultimately have ok: "copy2 p ?dest f = Inr (AList.update ?dest (File c wr) f)"
      using Cons.prems(2,3,4) by (intro copy2_ok) auto
    let ?f1 = "AList.update ?dest (File c wr) f"
    have d1: "node_at ?f1 ?dest = Some (File c wr)" by (simp add: node_at_update)
    have p1: "node_at ?f1 p = Some (File c wr)"
      using \<open>p \<noteq> ?dest\<close> Cons.prems(2) by (simp add: node_at_update)
    from copy_all_done_kept [OF d1 p1 rest assms(6), of cb lg] ok True
    show ?thesis by simp
  next
    case False
    with Cons.prems(1) have mem: "p \<in> set qs" by simp
    from False q have nb: "basename q \<noteq> basename p" by blast
    show ?thesis
    proof (cases "copy2 q (folder @ [basename q]) f")
      case (Inl e)
      with Cons.IH [OF mem Cons.prems(2,3,4) rest] show ?thesis by simp
    next
      case (Inr f')
      have fr: "node_at f' t = node_at f t"
        if "t \<noteq> folder @ [basename q]" "t \<noteq> (folder @ [basename q]) @ [basename q]" for t
        using copy2_frame [OF Inr that] .
      have p': "node_at f' p = Some (File c wr)"
        using fr [of p] not_under [OF assms(6)] Cons.prems(2) by simp
      have dir': "node_at f' folder = Some Dir"
        using fr [of folder] Cons.prems(3) by simp
      have "node_at f' ?dest = node_at f ?dest"
        using fr [of ?dest] nb by auto
      with Cons.prems(4) have d': "node_at f' ?dest = None
         \<or> (\<exists>b. node_at f' ?dest = Some (File b True))" by simp
      from Inr Cons.IH [OF mem p' dir' d' rest, of lg] show ?thesis by simp
    qed
  qed
qed

lemma rglob_empty:
  assumes "\<forall>p \<in> fst ` set f. strict_prefix base p \<longrightarrow> \<not> accepts (basename p)"
  shows "rglob f base accepts = []"
  using assms by (auto simp: rglob_def filter_empty_conv)

lemma ex_idle:
  "\<forall>p \<in> fst ` set (fs (world_of idle_fs offline)).
      strict_prefix [''downloads''] p \<longrightarrow> \<not> recognized (basename p)"
  by code_simp

lemma ex_steamless:
  "rglob (fs (world_of steamless_fs offline)) [''downloads''] recognized \<noteq> []"
  "find_steam_folder (downloader_init (world_of steamless_fs offline)) (world_of steamless_fs offline)
     = (None, downloader_init (world_of steamless_fs offline))"
  by code_simp+

text \<open>
  C6, as the code has it. When no entry below the staging directory has a recognized
  extension, \<^verbatim>\<open>copy_files_to_steam\<close> returns \<^verbatim>\<open>False\<close> and logs that no files were found;
  the downloader and the world are returned unchanged, so no destination directory is
  created (and the staging directory is not removed). \<^verbatim>\<open>False\<close> is also what it returns
  when there are files but no Steam folder: the two differ from success, and from each
  other only in the message logged.
\<close>

theorem copy_nothing_to_do:
  "((\<forall>p \<in> fst ` set (fs w). strict_prefix source_path p \<longrightarrow> \<not> recognized (basename p)) \<longrightarrow>
      copy_files_to_steam source_path cb d w = (Inr False, emit cb NoFilesFound, d, w))
   \<and> (rglob (fs w) source_path recognized \<noteq> [] \<and> find_steam_folder d w = (None, d1) \<longrightarrow>
      copy_files_to_steam source_path cb d w
        = (Inr False, emit cb CopyingToSteam @ emit cb SteamNotFound, d1, w))"
proof (intro conjI impI)
  assume a: "\<forall>p \<in> fst ` set (fs w). strict_prefix source_path p \<longrightarrow> \<not> recognized (basename p)"
  have "rglob (fs w) source_path (suffix ''.lua'') = []"
    "rglob (fs w) source_path (suffix ''.manifest'') = []"
    "rglob (fs w) source_path (suffix ''.st'') = []"
    using a by (auto intro!: rglob_empty simp: recognized_def)
  then show "copy_files_to_steam source_path cb d w = (Inr False, emit cb NoFilesFound, d, w)"
    by (simp add: copy_files_to_steam_def)
next
  assume a: "rglob (fs w) source_path recognized \<noteq> [] \<and> find_steam_folder d w = (None, d1)"
  then obtain p where "p \<in> set (rglob (fs w) source_path recognized)"
    by (cases "rglob (fs w) source_path recognized") auto
  then have dir: "node_at (fs w) source_path = Some Dir" and p: "p \<in> fst ` set (fs w)"
    "strict_prefix source_path p" and r: "recognized (basename p)"
    by (auto simp: rglob_def split: if_splits)
  from r have "p \<in> set (rglob (fs w) source_path (suffix ''.lua''))
     \<or> p \<in> set (rglob (fs w) source_path (suffix ''.manifest''))
     \<or> p \<in> set (rglob (fs w) source_path (suffix ''.st''))"
    using dir p by (auto simp: rglob_def recognized_def)
  then have "\<not> (rglob (fs w) source_path (suffix ''.lua'') = []
     \<and> rglob (fs w) source_path (suffix ''.manifest'') = []
     \<and> rglob (fs w) source_path (suffix ''.st'') = [])" by auto
  then show "copy_files_to_steam source_path cb d w
        = (Inr False, emit cb CopyingToSteam @ emit cb SteamNotFound, d1, w)"
    unfolding copy_files_to_steam_def Let_def
    by (subst if_not_P) (simp_all add: a)
qed

theorem copy_nothing_to_do_witness:
  "copy_files_to_steam [''downloads''] True (downloader_init (world_of idle_fs offline))
       (world_of idle_fs offline)
     = (Inr False, [NoFilesFound], downloader_init (world_of idle_fs offline),
        world_of idle_fs offline)
   \<and> copy_files_to_steam [''downloads''] True (downloader_init (world_of steamless_fs offline))
       (world_of steamless_fs offline)
     = (Inr False, [CopyingToSteam, SteamNotFound], downloader_init (world_of steamless_fs offline),
        world_of steamless_fs offline)"
  using copy_nothing_to_do [where w = "world_of idle_fs offline" and source_path = "[''downloads'']"
      and cb = True and d = "downloader_init (world_of idle_fs offline)"]
    copy_nothing_to_do [where w = "world_of steamless_fs offline"
      and source_path = "[''downloads'']" and cb = True
      and d = "downloader_init (world_of steamless_fs offline)"
      and ?d1.0 = "downloader_init (world_of steamless_fs offline)"]
    ex_idle ex_steamless
  by (simp add: emit_def)

text \<open>
  C6 as stated fails: without a callback, an empty staging directory and a staged script
  on a machine without Steam give the same value and the same (empty) log, so "nothing
  to do" is not an outcome distinct from the failure to find the root.
\<close>

theorem copy_nothing_to_do_counterexample:
  "fst (copy_files_to_steam [''downloads''] False (downloader_init (world_of idle_fs offline))
          (world_of idle_fs offline)) = Inr False
   \<and> fst (snd (copy_files_to_steam [''downloads''] False (downloader_init (world_of idle_fs offline))
          (world_of idle_fs offline))) = []
   \<and> rglob (fs (world_of steamless_fs offline)) [''downloads''] recognized
       = [[''downloads'', ''a.lua'']]
   \<and> fst (copy_files_to_steam [''downloads''] False (downloader_init (world_of steamless_fs offline))
          (world_of steamless_fs offline)) = Inr False
   \<and> fst (snd (copy_files_to_steam [''downloads''] False
          (downloader_init (world_of steamless_fs offline)) (world_of steamless_fs offline))) = []"
  by code_simp

section \<open>Copy failures\<close>

lemma copy_all_fst_log:
  "fst (copy_all folder qs cb (f, lg)) = fst (copy_all folder qs cb (f, lg'))"
proof (induction qs arbitrary: f lg lg')
  case Nil
  then show ?case by simp
next
  case (Cons q qs)
  then show ?case by (cases "copy2 q (folder @ [basename q]) f") auto
qed

lemma copy_files_to_steam_staged:
  assumes "find_steam_folder d w = (Some sf, d1)"
    and "mkdir_parents (sf @ [''config'', ''stplug-in'']) (fs w) = Inr f1"
    and "mkdir_parents (sf @ [''depotcache'']) f1 = Inr f2"
    and "rglob (fs w) src (suffix ''.lua'') @ rglob (fs w) src (suffix ''.st'') \<noteq> []
       \<or> rglob (fs w) src (suffix ''.manifest'') \<noteq> []"
  shows "fst (copy_files_to_steam src cb d w) = Inr True"
    and "\<not> prefix src t \<Longrightarrow>
      node_at (fs (snd (snd (snd (copy_files_to_steam src cb d w))))) t
        = node_at (after_copies src sf cb w f2) t"
proof -
  let ?lua = "rglob (fs w) src (suffix ''.lua'')"
  let ?man = "rglob (fs w) src (suffix ''.manifest'')"
  let ?st = "rglob (fs w) src (suffix ''.st'')"
  let ?log1 = "emit cb CopyingToSteam"
  let ?s3 = "if ?lua @ ?st \<noteq> []
     then copy_all (sf @ [''config'', ''stplug-in'']) (?lua @ ?st) cb (f2, ?log1 @ emit cb CopyingPlugins)
     else (f2, ?log1)"
  let ?s4 = "if ?man \<noteq> []
     then copy_all (sf @ [''depotcache'']) ?man cb (fst ?s3, snd ?s3 @ emit cb CopyingManifests)
     else ?s3"
  from assms(4) have ne: "\<not> (?lua = [] \<and> ?man = [] \<and> ?st = [])" by auto
  have unfold: "copy_files_to_steam src cb d w =
     (case rmtree src (fst ?s4) of
        Inr f5 \<Rightarrow> (Inr True, (snd ?s4 @ emit cb CleaningUp) @ emit cb DeletedTemp, d1, w\<lparr>fs := f5\<rparr>)
      | Inl e \<Rightarrow> (Inr True, (snd ?s4 @ emit cb CleaningUp) @ emit cb (CouldNotDelete e), d1,
                   w\<lparr>fs := fst ?s4\<rparr>))"
    unfolding copy_files_to_steam_def Let_def
    by (subst if_not_P [OF ne]) (simp add: assms(1-3) del: copy_all.simps)
  show "fst (copy_files_to_steam src cb d w) = Inr True"
    unfolding unfold by (simp split: sum.splits)
  have s4: "fst ?s4 = after_copies src sf cb w f2"
    unfolding after_copies_def Let_def
    using copy_all_fst_log [of "sf @ [''depotcache'']" ?man cb "fst ?s3"
        "snd ?s3 @ emit cb CopyingManifests" "[]"]
    by (simp del: copy_all.simps)
  assume t: "\<not> prefix src t"
  show "node_at (fs (snd (snd (snd (copy_files_to_steam src cb d w))))) t
        = node_at (after_copies src sf cb w f2) t"
  proof (cases "rmtree src (fst ?s4)")
    case (Inl e)
    then show ?thesis unfolding unfold by (simp add: s4 del: copy_all.simps)
  next
    case (Inr f5)
    from node_at_rmtree [OF Inr t] Inr show ?thesis
      unfolding unfold by (simp add: s4 del: copy_all.simps)
  qed
qed

lemma mkdir_parents_absent:
  assumes "mkdir_parents dir f = Inr f'" and "node_at f t = None" and "\<not> prefix t dir"
  shows "node_at f' t = None"
  using mkdir_parents_frame [OF assms(1), of t] assms(2,3) by auto

lemma folders_made:
  assumes "mkdir_parents (sf @ [''config'', ''stplug-in'']) f = Inr f1"
    and "mkdir_parents (sf @ [''depotcache'']) f1 = Inr f2"
  shows "node_at f2 (sf @ [''config'', ''stplug-in'']) = Some Dir"
    and "node_at f2 (sf @ [''depotcache'']) = Some Dir"
    and "node_at f t = Some n \<Longrightarrow> node_at f2 t = Some n"
    and "node_at f (sf @ [''config'', ''stplug-in'', x]) = None
           \<Longrightarrow> node_at f2 (sf @ [''config'', ''stplug-in'', x]) = None"
    and "node_at f (sf @ [''depotcache'', x]) = None
           \<Longrightarrow> node_at f2 (sf @ [''depotcache'', x]) = None"
proof -
  from mkdir_parents_creates [OF assms(1)] mkdir_parents_kept [OF assms(2)]
  show "node_at f2 (sf @ [''config'', ''stplug-in'']) = Some Dir" by blast
  from mkdir_parents_creates [OF assms(2)]
  show "node_at f2 (sf @ [''depotcache'']) = Some Dir" .
  show "node_at f t = Some n \<Longrightarrow> node_at f2 t = Some n"
    using mkdir_parents_kept [OF assms(1)] mkdir_parents_kept [OF assms(2)] by blast
  show "node_at f (sf @ [''config'', ''stplug-in'', x]) = None
           \<Longrightarrow> node_at f2 (sf @ [''config'', ''stplug-in'', x]) = None"
    by (intro mkdir_parents_absent [OF assms(2)] mkdir_parents_absent [OF assms(1)]) simp_all
  show "node_at f (sf @ [''depotcache'', x]) = None
           \<Longrightarrow> node_at f2 (sf @ [''depotcache'', x]) = None"
    by (intro mkdir_parents_absent [OF assms(2)] mkdir_parents_absent [OF assms(1)]) simp_all
qed

lemma plugin_installed:
  assumes "mkdir_parents (sf @ [''config'', ''stplug-in'']) (fs w) = Inr f1"
    and "mkdir_parents (sf @ [''depotcache'']) f1 = Inr f2"
    and "p \<in> set (rglob (fs w) src (suffix ''.lua'') @ rglob (fs w) src (suffix ''.st''))"
    and "node_at (fs w) p = Some (File c wr)"
    and "node_at (fs w) (sf @ [''config'', ''stplug-in'', basename p]) = None
       \<or> (\<exists>b. node_at (fs w) (sf @ [''config'', ''stplug-in'', basename p]) = Some (File b True))"
    and "\<forall>q \<in> set (rglob (fs w) src (suffix ''.lua'') @ rglob (fs w) src (suffix ''.st'')).
           basename q = basename p \<longrightarrow> q = p"
    and "\<not> prefix (sf @ [''config'', ''stplug-in'']) p"
  shows "node_at (after_copies src sf cb w f2) (sf @ [''config'', ''stplug-in'', basename p])
     = Some (File c wr)"
proof -
  let ?files = "rglob (fs w) src (suffix ''.lua'') @ rglob (fs w) src (suffix ''.st'')"
  let ?man = "rglob (fs w) src (suffix ''.manifest'')"
  let ?stplug = "sf @ [''config'', ''stplug-in'']"
  let ?dest = "sf @ [''config'', ''stplug-in'', basename p]"
  have d: "?stplug @ [basename p] = ?dest" by simp
  note made = folders_made [OF assms(1,2)]
  have p2: "node_at f2 p = Some (File c wr)" using assms(4) by (rule made(3))
  have r2: "node_at f2 (?stplug @ [basename p]) = None
       \<or> (\<exists>b. node_at f2 (?stplug @ [basename p]) = Some (File b True))"
    using assms(5) made(3,4) unfolding d by blast
  from assms(3) have ne: "?files \<noteq> []" by auto
  let ?f3 = "fst (copy_all ?stplug ?files cb (f2, emit cb CopyingToSteam @ emit cb CopyingPlugins))"
  have f3: "node_at ?f3 ?dest = Some (File c wr)"
    using copy_all_independent [OF assms(3) p2 made(1) r2 assms(6,7)] unfolding d .
  have fr: "node_at (fst (copy_all (sf @ [''depotcache'']) ?man cb (?f3, []))) ?dest
     = node_at ?f3 ?dest"
    by (rule copy_all_frame) simp
  show ?thesis
    unfolding after_copies_def Let_def using ne f3 fr by (simp del: copy_all.simps)
qed

lemma manifest_installed:
  assumes "mkdir_parents (sf @ [''config'', ''stplug-in'']) (fs w) = Inr f1"
    and "mkdir_parents (sf @ [''depotcache'']) f1 = Inr f2"
    and "p \<in> set (rglob (fs w) src (suffix ''.manifest''))"
    and "node_at (fs w) p = Some (File c wr)"
    and "node_at (fs w) (sf @ [''depotcache'', basename p]) = None
       \<or> (\<exists>b. node_at (fs w) (sf @ [''depotcache'', basename p]) = Some (File b True))"
    and "\<forall>q \<in> set (rglob (fs w) src (suffix ''.manifest'')). basename q = basename p \<longrightarrow> q = p"
    and "\<not> prefix sf p"
  shows "node_at (after_copies src sf cb w f2) (sf @ [''depotcache'', basename p])
     = Some (File c wr)"
proof -
  let ?files = "rglob (fs w) src (suffix ''.lua'') @ rglob (fs w) src (suffix ''.st'')"
  let ?man = "rglob (fs w) src (suffix ''.manifest'')"
  let ?stplug = "sf @ [''config'', ''stplug-in'']"
  let ?depot = "sf @ [''depotcache'']"
  let ?dest = "sf @ [''depotcache'', basename p]"
  have d: "?depot @ [basename p] = ?dest" by simp
  note made = folders_made [OF assms(1,2)]
  have np: "\<not> prefix ?depot p" "\<And>xs. p \<noteq> sf @ xs"
    using assms(7) by (auto simp: prefix_def)
  have p2: "node_at f2 p = Some (File c wr)" using assms(4) by (rule made(3))
  have r2: "node_at f2 (?depot @ [basename p]) = None
       \<or> (\<exists>b. node_at f2 (?depot @ [basename p]) = Some (File b True))"
    using assms(5) made(3,5) unfolding d by blast
  from assms(3) have ne: "?man \<noteq> []" by auto
  define f3 where "f3 = (if ?files \<noteq> []
      then fst (copy_all ?stplug ?files cb (f2, emit cb CopyingToSteam @ emit cb CopyingPlugins))
      else f2)"
  have keep: "node_at f3 t = node_at f2 t"
    if "\<And>x. t \<noteq> ?stplug @ [x]" "\<And>x. t \<noteq> ?stplug @ [x, x]" for t
    unfolding f3_def using copy_all_frame [of ?files t ?stplug cb f2] that by simp
  have p3: "node_at f3 p = Some (File c wr)"
    using keep [of p] np(2) p2 by simp
  have dir3: "node_at f3 ?depot = Some Dir"
    using keep [of ?depot] made(2) by simp
  have r3: "node_at f3 (?depot @ [basename p]) = None
       \<or> (\<exists>b. node_at f3 (?depot @ [basename p]) = Some (File b True))"
    using keep [of "?depot @ [basename p]"] r2 by simp
  have "node_at (fst (copy_all ?depot ?man cb (f3, []))) ?dest = Some (File c wr)"
    using copy_all_independent [OF assms(3) p3 dir3 r3 assms(6) np(1)] unfolding d .
  then show ?thesis
    unfolding after_copies_def Let_def f3_def using ne by (simp del: copy_all.simps)
qed

lemma ex_locked_stage:
  "find_steam_folder (downloader_init (world_of locked_fs offline)) (world_of locked_fs offline)
     = (Some steam_root,
        (downloader_init (world_of locked_fs offline))\<lparr>priv_steam_folder := Some steam_root\<rparr>)"
  "mkdir_parents (steam_root @ [''config'', ''stplug-in'']) (fs (world_of locked_fs offline))
     = Inr locked_fs"
  "mkdir_parents (steam_root @ [''depotcache'']) locked_fs
     = Inr (locked_fs @ [(steam_root @ [''depotcache''], Dir)])"
  "node_at (fs (world_of locked_fs offline)) [''downloads'', ''b.lua''] = Some (File ''bbb'' True)"
  "\<not> prefix steam_root [''downloads'', ''b.lua'']"
  by code_simp+

lemma ex_locked_file:
  "[''downloads'', ''b.lua'']
     \<in> set (rglob (fs (world_of locked_fs offline)) [''downloads''] (suffix ''.lua'')
          @ rglob (fs (world_of locked_fs offline)) [''downloads''] (suffix ''.st''))
   \<and> (\<forall>q \<in> set (rglob (fs (world_of locked_fs offline)) [''downloads''] (suffix ''.lua'')
          @ rglob (fs (world_of locked_fs offline)) [''downloads''] (suffix ''.st'')).
         basename q = basename [''downloads'', ''b.lua''] \<longrightarrow> q = [''downloads'', ''b.lua''])
   \<and> (node_at (fs (world_of locked_fs offline))
          (steam_root @ [''config'', ''stplug-in'', basename [''downloads'', ''b.lua'']]) = None
       \<or> (\<exists>b. node_at (fs (world_of locked_fs offline))
          (steam_root @ [''config'', ''stplug-in'', basename [''downloads'', ''b.lua'']])
            = Some (File b True)))
   \<and> \<not> prefix [''downloads'']
          (steam_root @ [''config'', ''stplug-in'', basename [''downloads'', ''b.lua'']])"
proof -
  have "[''downloads'', ''b.lua'']
     \<in> set (rglob (fs (world_of locked_fs offline)) [''downloads''] (suffix ''.lua'')
          @ rglob (fs (world_of locked_fs offline)) [''downloads''] (suffix ''.st''))"
    by code_simp
  moreover have "\<forall>q \<in> set (rglob (fs (world_of locked_fs offline)) [''downloads''] (suffix ''.lua'')
          @ rglob (fs (world_of locked_fs offline)) [''downloads''] (suffix ''.st'')).
         basename q = basename [''downloads'', ''b.lua''] \<longrightarrow> q = [''downloads'', ''b.lua'']"
    by code_simp
  moreover have "node_at (fs (world_of locked_fs offline))
          (steam_root @ [''config'', ''stplug-in'', basename [''downloads'', ''b.lua'']]) = None"
    by code_simp
  moreover have "\<not> prefix [''downloads'']
          (steam_root @ [''config'', ''stplug-in'', basename [''downloads'', ''b.lua'']])"
    by code_simp
  ultimately show ?thesis by blast
qed

lemma ex_basename_b: "basename [''downloads'', ''b.lua''] = ''b.lua''"
  by (simp add: basename_def)

text \<open>
  C2, as the code has it. Once the Steam folder is found and its two directories are made,
  \<^verbatim>\<open>copy_files_to_steam\<close> returns \<^verbatim>\<open>True\<close> whatever the copies did, and the copies do not
  depend on each other: a staged file outside the Steam folder, the only one of its name
  in its loop, whose destination is free or a file that can be written and is not inside
  the staging directory, is at its destination afterwards with its bytes and mode,
  whether or not the copies of the other files failed. This holds for the plugin files
  (to \<^verbatim>\<open>config/stplug-in\<close>) and for the manifest files (to \<^verbatim>\<open>depotcache\<close>).
\<close>

theorem copy_failures_tolerated:
  assumes "find_steam_folder d w = (Some sf, d1)"
    and "mkdir_parents (sf @ [''config'', ''stplug-in'']) (fs w) = Inr f1"
    and "mkdir_parents (sf @ [''depotcache'']) f1 = Inr f2"
    and "node_at (fs w) p = Some (File c wr)"
    and "\<not> prefix sf p"
  shows "(p \<in> set (rglob (fs w) src (suffix ''.lua'') @ rglob (fs w) src (suffix ''.st''))
          \<and> (\<forall>q \<in> set (rglob (fs w) src (suffix ''.lua'') @ rglob (fs w) src (suffix ''.st'')).
                basename q = basename p \<longrightarrow> q = p)
          \<and> (node_at (fs w) (sf @ [''config'', ''stplug-in'', basename p]) = None
              \<or> (\<exists>b. node_at (fs w) (sf @ [''config'', ''stplug-in'', basename p])
                       = Some (File b True)))
          \<and> \<not> prefix src (sf @ [''config'', ''stplug-in'', basename p]) \<longrightarrow>
            fst (copy_files_to_steam src cb d w) = Inr True
            \<and> node_at (fs (snd (snd (snd (copy_files_to_steam src cb d w)))))
                 (sf @ [''config'', ''stplug-in'', basename p]) = Some (File c wr))
       \<and> (p \<in> set (rglob (fs w) src (suffix ''.manifest''))
          \<and> (\<forall>q \<in> set (rglob (fs w) src (suffix ''.manifest'')). basename q = basename p \<longrightarrow> q = p)
          \<and> (node_at (fs w) (sf @ [''depotcache'', basename p]) = None
              \<or> (\<exists>b. node_at (fs w) (sf @ [''depotcache'', basename p]) = Some (File b True)))
          \<and> \<not> prefix src (sf @ [''depotcache'', basename p]) \<longrightarrow>
            fst (copy_files_to_steam src cb d w) = Inr True
            \<and> node_at (fs (snd (snd (snd (copy_files_to_steam src cb d w)))))
                 (sf @ [''depotcache'', basename p]) = Some (File c wr))"
proof (intro conjI impI)
  assume a: "p \<in> set (rglob (fs w) src (suffix ''.lua'') @ rglob (fs w) src (suffix ''.st''))
          \<and> (\<forall>q \<in> set (rglob (fs w) src (suffix ''.lua'') @ rglob (fs w) src (suffix ''.st'')).
                basename q = basename p \<longrightarrow> q = p)
          \<and> (node_at (fs w) (sf @ [''config'', ''stplug-in'', basename p]) = None
              \<or> (\<exists>b. node_at (fs w) (sf @ [''config'', ''stplug-in'', basename p])
                       = Some (File b True)))
          \<and> \<not> prefix src (sf @ [''config'', ''stplug-in'', basename p])"
  then have ne: "rglob (fs w) src (suffix ''.lua'') @ rglob (fs w) src (suffix ''.st'') \<noteq> []
       \<or> rglob (fs w) src (suffix ''.manifest'') \<noteq> []" by auto
  from assms(5) have np: "\<not> prefix (sf @ [''config'', ''stplug-in'']) p"
    by (auto simp: prefix_def)
  show "fst (copy_files_to_steam src cb d w) = Inr True"
    using copy_files_to_steam_staged(1) [OF assms(1-3) ne] .
  from a have t: "\<not> prefix src (sf @ [''config'', ''stplug-in'', basename p])" by simp
  show "node_at (fs (snd (snd (snd (copy_files_to_steam src cb d w)))))
                 (sf @ [''config'', ''stplug-in'', basename p]) = Some (File c wr)"
    unfolding copy_files_to_steam_staged(2) [OF assms(1-3) ne t]
    using a by (intro plugin_installed [OF assms(2,3) _ assms(4) _ _ np]) simp_all
next
  assume a: "p \<in> set (rglob (fs w) src (suffix ''.manifest''))
          \<and> (\<forall>q \<in> set (rglob (fs w) src (suffix ''.manifest'')). basename q = basename p \<longrightarrow> q = p)
          \<and> (node_at (fs w) (sf @ [''depotcache'', basename p]) = None
              \<or> (\<exists>b. node_at (fs w) (sf @ [''depotcache'', basename p]) = Some (File b True)))
          \<and> \<not> prefix src (sf @ [''depotcache'', basename p])"
  then have ne: "rglob (fs w) src (suffix ''.lua'') @ rglob (fs w) src (suffix ''.st'') \<noteq> []
       \<or> rglob (fs w) src (suffix ''.manifest'') \<noteq> []" by auto
  show "fst (copy_files_to_steam src cb d w) = Inr True"
    using copy_files_to_steam_staged(1) [OF assms(1-3) ne] .
  from a have t: "\<not> prefix src (sf @ [''depotcache'', basename p])" by simp
  show "node_at (fs (snd (snd (snd (copy_files_to_steam src cb d w)))))
                 (sf @ [''depotcache'', basename p]) = Some (File c wr)"
    unfolding copy_files_to_steam_staged(2) [OF assms(1-3) ne t]
    using a by (intro manifest_installed [OF assms(2,3) _ assms(4) _ _ assms(5)]) simp_all
qed

theorem copy_failures_tolerated_witness:
  "fst (copy_files_to_steam [''downloads''] True (downloader_init (world_of locked_fs offline))
          (world_of locked_fs offline)) = Inr True
   \<and> node_at (fs (snd (snd (snd (copy_files_to_steam [''downloads''] True
          (downloader_init (world_of locked_fs offline)) (world_of locked_fs offline))))))
        (steam_root @ [''config'', ''stplug-in'', ''b.lua'']) = Some (File ''bbb'' True)"
  using copy_failures_tolerated [OF ex_locked_stage, of "[''downloads'']" True] ex_locked_file
  unfolding ex_basename_b by blast

text \<open>
  C2 as stated fails: a run in which one copy fails (the destination of \<^verbatim>\<open>a.lua\<close> is
  read-only) and a run in which none fails both return \<^verbatim>\<open>True\<close>; the failure shows
  only in the log.
\<close>

theorem copy_failure_counterexample:
  "fst (copy_files_to_steam [''downloads''] True (downloader_init (world_of locked_fs offline))
          (world_of locked_fs offline)) = Inr True
   \<and> fst (snd (copy_files_to_steam [''downloads''] True (downloader_init (world_of locked_fs offline))
          (world_of locked_fs offline)))
       = [CopyingToSteam, CopyingPlugins, CopyFailed OSError, CleaningUp, DeletedTemp]
   \<and> fst (copy_files_to_steam [''downloads''] True (downloader_init (world_of fresh_fs offline))
          (world_of fresh_fs offline)) = Inr True
   \<and> fst (snd (copy_files_to_steam [''downloads''] True (downloader_init (world_of fresh_fs offline))
          (world_of fresh_fs offline)))
       = [CopyingToSteam, CopyingPlugins, CleaningUp, DeletedTemp]"
  by code_simp

section \<open>Files of one name\<close>

lemma copy_all_append:
  "copy_all folder (xs @ ys) cb s = copy_all folder ys cb (copy_all folder xs cb s)"
proof (induction xs arbitrary: s)
  case Nil
  then show ?case by (cases s) simp
next
  case (Cons q xs)
  obtain f lg where s: "s = (f, lg)" by (cases s)
  show ?case
    unfolding s by (cases "copy2 q (folder @ [basename q]) f") (simp_all add: Cons.IH)
qed

lemma copy_all_ready_kept:
  assumes "node_at f folder = Some Dir"
    and "node_at f (folder @ [basename p]) = None
       \<or> (\<exists>b. node_at f (folder @ [basename p]) = Some (File b True))"
    and "node_at f p = Some (File c True)"
    and "\<forall>q \<in> set qs. basename q = basename p \<longrightarrow>
           (\<exists>b. node_at f q = Some (File b True)) \<and> \<not> prefix folder q"
    and "\<not> prefix folder p"
  shows "node_at (fst (copy_all folder qs cb (f, lg))) folder = Some Dir
     \<and> (node_at (fst (copy_all folder qs cb (f, lg))) (folder @ [basename p]) = None
        \<or> (\<exists>b. node_at (fst (copy_all folder qs cb (f, lg))) (folder @ [basename p])
                 = Some (File b True)))
     \<and> node_at (fst (copy_all folder qs cb (f, lg))) p = Some (File c True)"
  using assms(1-4)
proof (induction qs arbitrary: f lg)
  case Nil
  then show ?case by simp
next
  case (Cons q qs)
  let ?dest = "folder @ [basename p]"
  from Cons.prems(4) have rest: "\<forall>q \<in> set qs. basename q = basename p \<longrightarrow>
           (\<exists>b. node_at f q = Some (File b True)) \<and> \<not> prefix folder q"
    and q: "basename q = basename p \<longrightarrow> (\<exists>b. node_at f q = Some (File b True))"
    by simp_all
  show ?case
  proof (cases "copy2 q (folder @ [basename q]) f")
    case (Inl e)
    with Cons.IH [OF Cons.prems(1-3) rest] show ?thesis by simp
  next
    case (Inr f')
    from copy2_Inr [OF Inr] obtain dst bytes w'
      where dst: "dst = folder @ [basename q] \<or> dst = (folder @ [basename q]) @ [basename q]"
        and ne: "dst \<noteq> []" and src: "node_at f q = Some (File bytes w')"
        and f': "f' = AList.update dst (File bytes w') f" by blast
    have at: "node_at f' t = (if t = dst then Some (File bytes w') else node_at f t)" for t
      using ne by (simp add: f' node_at_update)
    have under: "t \<noteq> dst" if "\<not> prefix folder t" for t
      using dst not_under [OF that] by auto
    have dir': "node_at f' folder = Some Dir"
      using Cons.prems(1) dst by (auto simp: at)
    have p': "node_at f' p = Some (File c True)"
      using Cons.prems(3) under [OF assms(5)] by (simp add: at)
    have d': "node_at f' ?dest = None \<or> (\<exists>b. node_at f' ?dest = Some (File b True))"
    proof (cases "?dest = dst")
      case True
      with dst have "basename q = basename p" by auto
      with q src have "w' = True" by auto
      with True show ?thesis by (simp add: at)
    next
      case False
      with Cons.prems(2) show ?thesis by (simp add: at)
    qed
    have rest': "\<forall>q \<in> set qs. basename q = basename p \<longrightarrow>
           (\<exists>b. node_at f' q = Some (File b True)) \<and> \<not> prefix folder q"
      using rest under by (auto simp: at)
    from Inr Cons.IH [OF dir' d' p' rest', of lg] show ?thesis by simp
  qed
qed

lemma copy_all_last_wins:
  assumes "node_at f folder = Some Dir"
    and "node_at f (folder @ [basename p]) = None
       \<or> (\<exists>b. node_at f (folder @ [basename p]) = Some (File b True))"
    and "node_at f p = Some (File c True)"
    and "\<forall>q \<in> set pre. basename q = basename p \<longrightarrow>
           (\<exists>b. node_at f q = Some (File b True)) \<and> \<not> prefix folder q"
    and "\<not> prefix folder p"
    and "\<forall>q \<in> set post. basename q \<noteq> basename p"
  shows "node_at (fst (copy_all folder (pre @ p # post) cb (f, lg))) (folder @ [basename p])
     = Some (File c True)"
proof -
  obtain f1 lg1 where mid: "copy_all folder pre cb (f, lg) = (f1, lg1)"
    by (cases "copy_all folder pre cb (f, lg)")
  from copy_all_ready_kept [OF assms(1-5), of cb lg] mid
  have dir: "node_at f1 folder = Some Dir"
    and ready: "node_at f1 (folder @ [basename p]) = None
       \<or> (\<exists>b. node_at f1 (folder @ [basename p]) = Some (File b True))"
    and p: "node_at f1 p = Some (File c True)" by simp_all
  have only: "\<forall>q \<in> set (p # post). basename q = basename p \<longrightarrow> q = p"
    using assms(6) by auto
  have "node_at (fst (copy_all folder (p # post) cb (f1, lg1))) (folder @ [basename p])
     = Some (File c True)"
    by (rule copy_all_independent [OF _ p dir ready only assms(5)]) simp
  then show ?thesis by (simp only: copy_all_append mid)
qed

lemma plugin_last_wins:
  assumes "mkdir_parents (sf @ [''config'', ''stplug-in'']) (fs w) = Inr f1"
    and "mkdir_parents (sf @ [''depotcache'']) f1 = Inr f2"
    and "rglob (fs w) src (suffix ''.lua'') @ rglob (fs w) src (suffix ''.st'') = pre @ p # post"
    and "\<forall>q \<in> set post. basename q \<noteq> basename p"
    and "node_at (fs w) p = Some (File c True)"
    and "\<forall>q \<in> set pre. basename q = basename p \<longrightarrow>
           (\<exists>b. node_at (fs w) q = Some (File b True)) \<and> \<not> prefix sf q"
    and "\<not> prefix sf p"
    and "node_at (fs w) (sf @ [''config'', ''stplug-in'', basename p]) = None
       \<or> (\<exists>b. node_at (fs w) (sf @ [''config'', ''stplug-in'', basename p]) = Some (File b True))"
  shows "node_at (after_copies src sf cb w f2) (sf @ [''config'', ''stplug-in'', basename p])
     = Some (File c True)"
proof -
  let ?man = "rglob (fs w) src (suffix ''.manifest'')"
  let ?stplug = "sf @ [''config'', ''stplug-in'']"
  let ?dest = "sf @ [''config'', ''stplug-in'', basename p]"
  have d: "?stplug @ [basename p] = ?dest" by simp
  note made = folders_made [OF assms(1,2)]
  have under: "\<not> prefix ?stplug q" if "\<not> prefix sf q" for q
    using that by (auto simp: prefix_def)
  have p2: "node_at f2 p = Some (File c True)" using assms(5) by (rule made(3))
  have r2: "node_at f2 (?stplug @ [basename p]) = None
       \<or> (\<exists>b. node_at f2 (?stplug @ [basename p]) = Some (File b True))"
    using assms(8) made(3,4) unfolding d by blast
  have pre2: "\<forall>q \<in> set pre. basename q = basename p \<longrightarrow>
           (\<exists>b. node_at f2 q = Some (File b True)) \<and> \<not> prefix ?stplug q"
    using assms(6) made(3) under by blast
  let ?f3 = "fst (copy_all ?stplug (pre @ p # post) cb
      (f2, emit cb CopyingToSteam @ emit cb CopyingPlugins))"
  have f3: "node_at ?f3 ?dest = Some (File c True)"
    using copy_all_last_wins [OF made(1) r2 p2 pre2 under [OF assms(7)] assms(4)] unfolding d .
  have fr: "node_at (fst (copy_all (sf @ [''depotcache'']) ?man cb (?f3, []))) ?dest
     = node_at ?f3 ?dest"
    by (rule copy_all_frame) simp
  show ?thesis
    unfolding after_copies_def Let_def assms(3) using f3 fr by (simp del: copy_all.simps)
qed

lemma manifest_last_wins:
  assumes "mkdir_parents (sf @ [''config'', ''stplug-in'']) (fs w) = Inr f1"
    and "mkdir_parents (sf @ [''depotcache'']) f1 = Inr f2"
    and "rglob (fs w) src (suffix ''.manifest'') = pre @ p # post"
    and "\<forall>q \<in> set post. basename q \<noteq> basename p"
    and "node_at (fs w) p = Some (File c True)"
    and "\<forall>q \<in> set pre. basename q = basename p \<longrightarrow>
           (\<exists>b. node_at (fs w) q = Some (File b True)) \<and> \<not> prefix sf q"
    and "\<not> prefix sf p"
    and "node_at (fs w) (sf @ [''depotcache'', basename p]) = None
       \<or> (\<exists>b. node_at (fs w) (sf @ [''depotcache'', basename p]) = Some (File b True))"
  shows "node_at (after_copies src sf cb w f2) (sf @ [''depotcache'', basename p])
     = Some (File c True)"
proof -
  let ?files = "rglob (fs w) src (suffix ''.lua'') @ rglob (fs w) src (suffix ''.st'')"
  let ?stplug = "sf @ [''config'', ''stplug-in'']"
  let ?depot = "sf @ [''depotcache'']"
  let ?dest = "sf @ [''depotcache'', basename p]"
  have d: "?depot @ [basename p] = ?dest" by simp
  note made = folders_made [OF assms(1,2)]
  have under: "\<not> prefix ?depot q" if "\<not> prefix sf q" for q
    using that by (auto simp: prefix_def)
  have apart: "q \<noteq> sf @ xs" if "\<not> prefix sf q" for q xs
    using that by auto
  have p2: "node_at f2 p = Some (File c True)" using assms(5) by (rule made(3))
  have r2: "node_at f2 (?depot @ [basename p]) = None
       \<or> (\<exists>b. node_at f2 (?depot @ [basename p]) = Some (File b True))"
    using assms(8) made(3,5) unfolding d by blast
  define f3 where "f3 = (if ?files \<noteq> []
      then fst (copy_all ?stplug ?files cb (f2, emit cb CopyingToSteam @ emit cb CopyingPlugins))
      else f2)"
  have keep: "node_at f3 t = node_at f2 t"
    if "\<And>x. t \<noteq> ?stplug @ [x]" "\<And>x. t \<noteq> ?stplug @ [x, x]" for t
    unfolding f3_def using copy_all_frame [of ?files t ?stplug cb f2] that by simp
  have keep_out: "node_at f3 q = node_at f2 q" if "\<not> prefix sf q" for q
    using keep [of q] apart [OF that] by simp
  have p3: "node_at f3 p = Some (File c True)"
    using keep_out [OF assms(7)] p2 by simp
  have dir3: "node_at f3 ?depot = Some Dir"
    using keep [of ?depot] made(2) by simp
  have r3: "node_at f3 (?depot @ [basename p]) = None
       \<or> (\<exists>b. node_at f3 (?depot @ [basename p]) = Some (File b True))"
    using keep [of "?depot @ [basename p]"] r2 by simp
  have pre3: "\<forall>q \<in> set pre. basename q = basename p \<longrightarrow>
           (\<exists>b. node_at f3 q = Some (File b True)) \<and> \<not> prefix ?depot q"
  proof (intro ballI impI)
    fix q assume "q \<in> set pre" "basename q = basename p"
    with assms(6) obtain b where b: "node_at (fs w) q = Some (File b True)"
      and out: "\<not> prefix sf q" by blast
    from b have "node_at f2 q = Some (File b True)" by (rule made(3))
    with keep_out [OF out] under [OF out]
    show "(\<exists>b. node_at f3 q = Some (File b True)) \<and> \<not> prefix ?depot q" by simp
  qed
  have "node_at (fst (copy_all ?depot (pre @ p # post) cb (f3, []))) ?dest = Some (File c True)"
    using copy_all_last_wins [OF dir3 r3 p3 pre3 under [OF assms(7)] assms(4)] unfolding d .
  then show ?thesis
    unfolding after_copies_def Let_def f3_def assms(3) by (simp del: copy_all.simps)
qed

lemma ex_twin_stage:
  "find_steam_folder (downloader_init (world_of twin_fs offline)) (world_of twin_fs offline)
     = (Some steam_root,
        (downloader_init (world_of twin_fs offline))\<lparr>priv_steam_folder := Some steam_root\<rparr>)"
  "mkdir_parents (steam_root @ [''config'', ''stplug-in'']) (fs (world_of twin_fs offline))
     = Inr (twin_fs @ [(steam_root @ [''config''], Dir),
                       (steam_root @ [''config'', ''stplug-in''], Dir)])"
  "mkdir_parents (steam_root @ [''depotcache''])
       (twin_fs @ [(steam_root @ [''config''], Dir), (steam_root @ [''config'', ''stplug-in''], Dir)])
     = Inr (twin_fs @ [(steam_root @ [''config''], Dir),
                       (steam_root @ [''config'', ''stplug-in''], Dir),
                       (steam_root @ [''depotcache''], Dir)])"
  "\<forall>q \<in> set []. basename q \<noteq> basename [''downloads'', ''two'', ''x.lua'']"
  "node_at (fs (world_of twin_fs offline)) [''downloads'', ''two'', ''x.lua'']
     = Some (File ''second'' True)"
  by code_simp+

lemma ex_twin_earlier:
  "\<forall>q \<in> set [[''downloads'', ''one'', ''x.lua'']].
      basename q = basename [''downloads'', ''two'', ''x.lua''] \<longrightarrow>
      (\<exists>b. node_at (fs (world_of twin_fs offline)) q = Some (File b True))
      \<and> \<not> prefix steam_root q"
proof -
  have "node_at (fs (world_of twin_fs offline)) [''downloads'', ''one'', ''x.lua'']
     = Some (File ''first'' True)" by code_simp
  moreover have "\<not> prefix steam_root [''downloads'', ''one'', ''x.lua'']" by code_simp
  ultimately show ?thesis by simp
qed

lemma ex_twin_later: "\<not> prefix steam_root [''downloads'', ''two'', ''x.lua'']"
  by code_simp

lemma ex_twin_files:
  "rglob (fs (world_of twin_fs offline)) [''downloads''] (suffix ''.lua'')
     @ rglob (fs (world_of twin_fs offline)) [''downloads''] (suffix ''.st'')
     = [[''downloads'', ''one'', ''x.lua'']] @ [''downloads'', ''two'', ''x.lua''] # []"
  "node_at (fs (world_of twin_fs offline))
      (steam_root @ [''config'', ''stplug-in'', basename [''downloads'', ''two'', ''x.lua'']]) = None"
  "\<not> prefix [''downloads'']
      (steam_root @ [''config'', ''stplug-in'', basename [''downloads'', ''two'', ''x.lua'']])"
  "basename [''downloads'', ''one'', ''x.lua''] = basename [''downloads'', ''two'', ''x.lua'']"
  "basename [''downloads'', ''two'', ''x.lua''] = ''x.lua''"
  by code_simp+

text \<open>
  C10, as the code has it. A staged file is copied to the destination folder under its
  base name alone, whatever directories lie between the staging directory and the file. So files of one
  base name share a destination, and the last of them in the order of the loop is the
  one found there afterwards: if the files of that name are regular files that can be
  written, outside the Steam folder, and the destination is free or a file that can be
  written and is not inside the staging directory, then after \<^verbatim>\<open>copy_files_to_steam\<close>
  the destination holds the bytes of the last one. This holds for the plugin files and
  for the manifest files.
\<close>

theorem same_name_last_copy_wins:
  assumes "find_steam_folder d w = (Some sf, d1)"
    and "mkdir_parents (sf @ [''config'', ''stplug-in'']) (fs w) = Inr f1"
    and "mkdir_parents (sf @ [''depotcache'']) f1 = Inr f2"
    and "\<forall>q \<in> set post. basename q \<noteq> basename p"
    and "node_at (fs w) p = Some (File c True)"
    and "\<forall>q \<in> set pre. basename q = basename p \<longrightarrow>
           (\<exists>b. node_at (fs w) q = Some (File b True)) \<and> \<not> prefix sf q"
    and "\<not> prefix sf p"
  shows "(rglob (fs w) src (suffix ''.lua'') @ rglob (fs w) src (suffix ''.st'') = pre @ p # post
          \<and> (node_at (fs w) (sf @ [''config'', ''stplug-in'', basename p]) = None
              \<or> (\<exists>b. node_at (fs w) (sf @ [''config'', ''stplug-in'', basename p])
                       = Some (File b True)))
          \<and> \<not> prefix src (sf @ [''config'', ''stplug-in'', basename p]) \<longrightarrow>
            node_at (fs (snd (snd (snd (copy_files_to_steam src cb d w)))))
                 (sf @ [''config'', ''stplug-in'', basename p]) = Some (File c True))
       \<and> (rglob (fs w) src (suffix ''.manifest'') = pre @ p # post
          \<and> (node_at (fs w) (sf @ [''depotcache'', basename p]) = None
              \<or> (\<exists>b. node_at (fs w) (sf @ [''depotcache'', basename p]) = Some (File b True)))
          \<and> \<not> prefix src (sf @ [''depotcache'', basename p]) \<longrightarrow>
            node_at (fs (snd (snd (snd (copy_files_to_steam src cb d w)))))
                 (sf @ [''depotcache'', basename p]) = Some (File c True))"
proof (intro conjI impI)
  assume a: "rglob (fs w) src (suffix ''.lua'') @ rglob (fs w) src (suffix ''.st'') = pre @ p # post
          \<and> (node_at (fs w) (sf @ [''config'', ''stplug-in'', basename p]) = None
              \<or> (\<exists>b. node_at (fs w) (sf @ [''config'', ''stplug-in'', basename p])
                       = Some (File b True)))
          \<and> \<not> prefix src (sf @ [''config'', ''stplug-in'', basename p])"
  then have ne: "rglob (fs w) src (suffix ''.lua'') @ rglob (fs w) src (suffix ''.st'') \<noteq> []
       \<or> rglob (fs w) src (suffix ''.manifest'') \<noteq> []" by simp
  from a have t: "\<not> prefix src (sf @ [''config'', ''stplug-in'', basename p])" by simp
  show "node_at (fs (snd (snd (snd (copy_files_to_steam src cb d w)))))
                 (sf @ [''config'', ''stplug-in'', basename p]) = Some (File c True)"
    unfolding copy_files_to_steam_staged(2) [OF assms(1-3) ne t]
    using a by (intro plugin_last_wins [OF assms(2,3) _ assms(4-7)]) simp_all
next
  assume a: "rglob (fs w) src (suffix ''.manifest'') = pre @ p # post
          \<and> (node_at (fs w) (sf @ [''depotcache'', basename p]) = None
              \<or> (\<exists>b. node_at (fs w) (sf @ [''depotcache'', basename p]) = Some (File b True)))
          \<and> \<not> prefix src (sf @ [''depotcache'', basename p])"
  then have ne: "rglob (fs w) src (suffix ''.lua'') @ rglob (fs w) src (suffix ''.st'') \<noteq> []
       \<or> rglob (fs w) src (suffix ''.manifest'') \<noteq> []" by simp
  from a have t: "\<not> prefix src (sf @ [''depotcache'', basename p])" by simp
  show "node_at (fs (snd (snd (snd (copy_files_to_steam src cb d w)))))
                 (sf @ [''depotcache'', basename p]) = Some (File c True)"
    unfolding copy_files_to_steam_staged(2) [OF assms(1-3) ne t]
    using a by (intro manifest_last_wins [OF assms(2,3) _ assms(4-7)]) simp_all
qed

theorem same_name_last_copy_wins_witness:
  "basename [''downloads'', ''one'', ''x.lua''] = basename [''downloads'', ''two'', ''x.lua'']
   \<and> node_at (fs (snd (snd (snd (copy_files_to_steam [''downloads''] True
          (downloader_init (world_of twin_fs offline)) (world_of twin_fs offline))))))
        (steam_root @ [''config'', ''stplug-in'', ''x.lua'']) = Some (File ''second'' True)"
  using same_name_last_copy_wins [OF ex_twin_stage ex_twin_earlier ex_twin_later,
      of "[''downloads'']" True] ex_twin_files
  by simp

text \<open>
  C10 as stated fails when the earlier file of the name is read-only: \<^verbatim>\<open>copy2\<close> gives
  the copy the mode of its source, the later copy cannot write to it and is logged as
  failed, and the destination keeps the earlier file.
\<close>

theorem same_name_read_only_counterexample:
  "(case copy_files_to_steam [''downloads''] True (downloader_init (world_of twin_locked_fs offline))
          (world_of twin_locked_fs offline) of
      (r, lg, d', w') \<Rightarrow>
        r = Inr True
        \<and> lg = [CopyingToSteam, CopyingPlugins, CopyFailed OSError, CleaningUp, DeletedTemp]
        \<and> node_at (fs w') (steam_root @ [''config'', ''stplug-in'', ''x.lua''])
            = Some (File ''first'' False))"
  by code_simp

end
